theory Spec2Isabelle
  imports Main
begin

section \<open>The channel provider registry\<close>

text \<open>
  The registry file keeps one process-wide \<^verbatim>\<open>std::map\<close> from provider names to
  provider factories, guarded by one mutex that every operation holds from entry to
  return.  The map is modelled as a partial function and passed explicitly.

  \<^verbatim>\<open>ChannelProviderFactory\<close> is an abstract interface whose implementations live
  outside the registry.  A factory is modelled by its declared name and by its two
  producing methods.  Both may touch state of the factory's own (a lazily built
  singleton, a freshly allocated instance), so both pass a state \<open>'w\<close> through.  A
  \<^verbatim>\<open>shared_pointer\<close> result may be empty, hence the \<open>option\<close>.
\<close>

datatype ChannelProvider = ChannelProvider nat

record 'w ChannelProviderFactory =
  getFactoryName :: string
  sharedInstance :: "'w \<Rightarrow> ChannelProvider option \<times> 'w"
  newInstance :: "'w \<Rightarrow> ChannelProvider option \<times> 'w"

type_synonym 'w ChannelProviderFactoryMap = "string \<rightharpoonup> 'w ChannelProviderFactory"

text \<open>
  \<^verbatim>\<open>getProvider\<close>: the historical name is replaced by the canonical one, then the map is
  searched; a hit returns the factory's shared instance, a miss the empty pointer.
\<close>

definition getProvider ::
  "string \<Rightarrow> 'w ChannelProviderFactoryMap \<Rightarrow> 'w \<Rightarrow> ChannelProvider option \<times> 'w" where
  "getProvider providerName0 channelProviders w =
     (let providerName = (if providerName0 = ''pvAccess'' then ''pva'' else providerName0)
      in case channelProviders providerName of
           Some factory \<Rightarrow> sharedInstance factory w
         | None \<Rightarrow> (None, w))"

text \<open>\<^verbatim>\<open>createProvider\<close>: the same search, a hit returns a new instance.\<close>

definition createProvider ::
  "string \<Rightarrow> 'w ChannelProviderFactoryMap \<Rightarrow> 'w \<Rightarrow> ChannelProvider option \<times> 'w" where
  "createProvider providerName0 channelProviders w =
     (let providerName = (if providerName0 = ''pvAccess'' then ''pva'' else providerName0)
      in case channelProviders providerName of
           Some factory \<Rightarrow> newInstance factory w
         | None \<Rightarrow> (None, w))"

text \<open>
  \<^verbatim>\<open>channelProviders[name] = factory\<close> overwrites an entry of the same name;
  \<^verbatim>\<open>channelProviders.erase(name)\<close> removes the entry of that name, whichever factory
  stored it, and does nothing when there is none.
\<close>

definition registerChannelProviderFactory ::
  "'w ChannelProviderFactory \<Rightarrow> 'w ChannelProviderFactoryMap \<Rightarrow> 'w ChannelProviderFactoryMap" where
  "registerChannelProviderFactory channelProviderFactory channelProviders =
     channelProviders(getFactoryName channelProviderFactory \<mapsto> channelProviderFactory)"

definition unregisterChannelProviderFactory ::
  "'w ChannelProviderFactory \<Rightarrow> 'w ChannelProviderFactoryMap \<Rightarrow> 'w ChannelProviderFactoryMap" where
  "unregisterChannelProviderFactory channelProviderFactory channelProviders =
     channelProviders(getFactoryName channelProviderFactory := None)"

text \<open>A history of the registry: the calls made on it since the process started.\<close>

datatype 'w registry_call =
  Register "'w ChannelProviderFactory"
| Unregister "'w ChannelProviderFactory"

fun registry_call_name :: "'w registry_call \<Rightarrow> string" where
  "registry_call_name (Register f) = getFactoryName f"
| "registry_call_name (Unregister f) = getFactoryName f"

fun registry_call_apply ::
  "'w registry_call \<Rightarrow> 'w ChannelProviderFactoryMap \<Rightarrow> 'w ChannelProviderFactoryMap" where
  "registry_call_apply (Register f) m = registerChannelProviderFactory f m"
| "registry_call_apply (Unregister f) m = unregisterChannelProviderFactory f m"

fun registry_after ::
  "'w registry_call list \<Rightarrow> 'w ChannelProviderFactoryMap \<Rightarrow> 'w ChannelProviderFactoryMap" where
  "registry_after [] m = m"
| "registry_after (c # cs) m = registry_after cs (registry_call_apply c m)"

text \<open>
  Two factories used as concrete inputs.  Their state is a counter of the instances
  built so far; the shared instance is number 0.
\<close>

definition counting_factory :: "string \<Rightarrow> nat ChannelProviderFactory" where
  "counting_factory name =
     \<lparr> getFactoryName = name,
       sharedInstance = (\<lambda>w. (Some (ChannelProvider 0), w)),
       newInstance = (\<lambda>w. (Some (ChannelProvider (Suc w)), Suc w)) \<rparr>"

definition legacy_factory :: "nat ChannelProviderFactory" where
  "legacy_factory = counting_factory ''pvAccess''"

definition pva_factory :: "nat ChannelProviderFactory" where
  "pva_factory = counting_factory ''pva''"


section \<open>Operations on a shared record\<close>

text \<open>
  The value types of the structured-data library are only stored and forwarded here.
  \<^verbatim>\<open>Status()\<close> is the OK status with an empty message, \<^verbatim>\<open>Status::error(m)\<close> an error
  status carrying \<open>m\<close>.
\<close>

datatype StatusType = STATUSTYPE_OK | STATUSTYPE_WARNING | STATUSTYPE_ERROR | STATUSTYPE_FATAL

datatype Status = Status StatusType string

definition Status_Ok :: Status where
  "Status_Ok = Status STATUSTYPE_OK []"

definition Status_error :: "string \<Rightarrow> Status" where
  "Status_error m = Status STATUSTYPE_ERROR m"

datatype MessageType = infoMessage | warningMessage | errorMessage | fatalErrorMessage

type_synonym PVStructure = "(string \<times> int) list"

type_synonym BitSet = "nat list"

type_synonym Structure = "string list"

datatype Requester = Requester (getRequesterName: string)

text \<open>
  A channel as its operations see it.  \<open>chan_requester\<close> and \<open>chan_provider\<close> are weak
  pointers: the field holds what \<^verbatim>\<open>lock()\<close> returns, \<open>None\<close> once the target is gone.
  \<open>chan_this\<close> is the address of the object.
\<close>

record SharedChannel =
  chan_this :: nat
  channelName :: string
  chan_requester :: "Requester option"
  chan_provider :: "ChannelProvider option"

definition getChannelName :: "SharedChannel \<Rightarrow> string" where
  "getChannelName chan = channelName chan"

text \<open>
  \<^verbatim>\<open>Operation::Impl\<close>: the fields the operation's methods read, and the results of its
  two virtual accessors.  \<open>getChannel\<close> and \<open>getRequester\<close> return a pointer that is
  empty when the target no longer exists.
\<close>

record Impl =
  pvRequest :: PVStructure
  Impl_value :: PVStructure
  changed :: BitSet
  Impl_done :: bool
  Impl_debugLvl :: int
  getChannel :: "SharedChannel option"
  getRequester :: "Requester option"

text \<open>
  What an operation does to the world outside its own object: it tells the requester
  that the request is done, it sends the requester a message, and its cleanup deletes
  the \<^verbatim>\<open>Impl\<close>.  A state is the object together with the trace of these effects.
\<close>

datatype op_event =
  Ev_done Requester Status "PVStructure option"
| Ev_message Requester string MessageType
| Ev_delete

type_synonym op_state = "Impl \<times> op_event list"

datatype error = Logic_error string

text \<open>
  \<^verbatim>\<open>Impl::complete(sts, value)\<close> is virtual; the methods below take the implementation
  as the parameter \<open>cmpl\<close>.  It returns the state it leaves and the exception it
  threw, if any; \<^verbatim>\<open>value\<close> is a pointer, null when no value is passed.
\<close>

type_synonym complete_method =
  "Status \<Rightarrow> PVStructure option \<Rightarrow> op_state \<Rightarrow> error option \<times> op_state"

definition Operation_channelName :: "Impl \<Rightarrow> string" where
  "Operation_channelName impl =
     (let ret = [];
          chan = getChannel impl
      in case chan of
           Some c \<Rightarrow> getChannelName c
         | None \<Rightarrow> ret)"

definition Operation_complete :: "complete_method \<Rightarrow> op_state \<Rightarrow> error option \<times> op_state" where
  "Operation_complete cmpl s = cmpl Status_Ok None s"

definition Operation_complete_status ::
  "complete_method \<Rightarrow> Status \<Rightarrow> op_state \<Rightarrow> error option \<times> op_state" where
  "Operation_complete_status cmpl sts s = cmpl sts None s"

definition Operation_complete_value ::
  "complete_method \<Rightarrow> PVStructure \<Rightarrow> BitSet \<Rightarrow> op_state \<Rightarrow> error option \<times> op_state" where
  "Operation_complete_value cmpl val chg s = cmpl Status_Ok (Some val) s"

definition Operation_info :: "string \<Rightarrow> op_state \<Rightarrow> op_state" where
  "Operation_info msg s =
     (case getRequester (fst s) of
        Some req \<Rightarrow> (fst s, snd s @ [Ev_message req msg infoMessage])
      | None \<Rightarrow> s)"

definition Operation_warn :: "string \<Rightarrow> op_state \<Rightarrow> op_state" where
  "Operation_warn msg s =
     (case getRequester (fst s) of
        Some req \<Rightarrow> (fst s, snd s @ [Ev_message req msg warningMessage])
      | None \<Rightarrow> s)"

definition Operation_isDebug :: "Impl \<Rightarrow> int" where
  "Operation_isDebug impl = Impl_debugLvl impl"

text \<open>
  \<^verbatim>\<open>Operation::Impl::Cleanup\<close>, the deleter of the \<^verbatim>\<open>Impl\<close>: read the flag under the
  lock, complete with the error if it is not set, then delete the object.  An exception
  out of \<^verbatim>\<open>complete\<close> leaves before the \<^verbatim>\<open>delete\<close>.
\<close>

definition Cleanup :: "complete_method \<Rightarrow> op_state \<Rightarrow> error option \<times> op_state" where
  "Cleanup cmpl s =
     (let err = \<not> Impl_done (fst s)
      in case (if err then cmpl (Status_error ''Implicit Cancel'') None s else (None, s)) of
           (Some e, s') \<Rightarrow> (Some e, s')
         | (None, s') \<Rightarrow> (None, (fst s', snd s' @ [Ev_delete])))"

text \<open>
  Modelled from the spec: the bodies of \<^verbatim>\<open>Impl::complete\<close> for put and RPC operations
  are not among the sources.  The spec gives the contract: completion is a single-use
  transition guarded by the completed flag; the first call sets the flag and delivers
  the status (and value) to the requester if its weak reference is still reachable,
  silently dropping the callback otherwise; a call on a completed operation is a no-op
  or a programming error and never notifies again.  \<open>strict\<close> chooses between the two
  readings of the second call.
\<close>

definition Impl_complete :: "bool \<Rightarrow> complete_method" where
  "Impl_complete strict sts val s =
     (if Impl_done (fst s)
      then (if strict then (Some (Logic_error ''Operation already complete''), s) else (None, s))
      else (None, ((fst s)\<lparr>Impl_done := True\<rparr>,
                   snd s @ (case getRequester (fst s) of
                              Some req \<Rightarrow> [Ev_done req sts val]
                            | None \<Rightarrow> []))))"

text \<open>The three completion entry points, and a sequence of calls to them.\<close>

datatype completion_call =
  Call_complete
| Call_complete_status Status
| Call_complete_value PVStructure BitSet

fun Operation_call :: "complete_method \<Rightarrow> completion_call \<Rightarrow> op_state \<Rightarrow> error option \<times> op_state" where
  "Operation_call cmpl Call_complete s = Operation_complete cmpl s"
| "Operation_call cmpl (Call_complete_status sts) s = Operation_complete_status cmpl sts s"
| "Operation_call cmpl (Call_complete_value val chg) s = Operation_complete_value cmpl val chg s"

fun Operation_calls :: "complete_method \<Rightarrow> completion_call list \<Rightarrow> op_state \<Rightarrow> op_state" where
  "Operation_calls cmpl [] s = s"
| "Operation_calls cmpl (c # cs) s = Operation_calls cmpl cs (snd (Operation_call cmpl c s))"

fun is_done_event :: "op_event \<Rightarrow> bool" where
  "is_done_event (Ev_done r sts val) = True"
| "is_done_event e = False"

text \<open>Concrete inputs: a put operation on channel \<open>pv:counter\<close>, pending.\<close>

definition example_channel :: SharedChannel where
  "example_channel =
     \<lparr> chan_this = 1, channelName = ''pv:counter'',
       chan_requester = Some (Requester ''client''), chan_provider = Some (ChannelProvider 0) \<rparr>"

definition example_impl :: Impl where
  "example_impl =
     \<lparr> pvRequest = [], Impl_value = [(''value'', 42)], changed = [1],
       Impl_done = False, Impl_debugLvl = 0,
       getChannel = Some example_channel, getRequester = Some (Requester ''client'') \<rparr>"


section \<open>The shared record and its channels\<close>

text \<open>
  \<^verbatim>\<open>SharedPV\<close>, the owner of a channel: the fields the channel code touches.  The four
  attachment lists hold raw pointers, modelled as addresses; \<open>getfields\<close> holds the
  requesters waiting for the type; \<open>handler\<close>, \<open>type\<close> and \<open>current\<close> are pointers
  that may be empty.
\<close>

datatype Handler = Handler nat

record SharedPV =
  channels :: "nat list"
  puts :: "nat list"
  rpcs :: "nat list"
  monitors :: "nat list"
  getfields :: "Requester list"
  handler :: "Handler option"
  type :: "Structure option"
  current :: "PVStructure option"
  valid :: BitSet
  debugLvl :: int

text \<open>
  The operation objects a channel creates.  Their constructors only store their
  arguments; the requester is kept as a weak pointer.
\<close>

record SharedPut =
  put_this :: nat
  put_channel :: nat
  put_requester :: "Requester option"
  put_pvRequest :: PVStructure

record SharedRPC =
  rpc_this :: nat
  rpc_channel :: nat
  rpc_requester :: "Requester option"
  rpc_pvRequest :: PVStructure

record SharedMonitorFIFO =
  mon_this :: nat
  mon_channel :: nat
  mon_requester :: Requester
  mon_pvRequest :: PVStructure
  mon_opened :: "Structure option"
  mon_queue :: "(PVStructure \<times> BitSet) list"

text \<open>
  The trace of a method: taking and releasing the record's mutex (a \<^verbatim>\<open>Guard\<close> locks
  where it is declared and unlocks at the end of its scope), the calls made on
  handlers, requesters and monitor queues, and the debug print.
\<close>

datatype pv_event =
  Ev_lock
| Ev_unlock
| Ev_onFirstConnect Handler
| Ev_onLastDisconnect Handler
| Ev_getDone Requester Status Structure
| Ev_channelPutConnect Requester Status nat Structure
| Ev_channelRPCConnect Requester Status nat
| Ev_monitor_open nat Structure
| Ev_monitor_post nat PVStructure BitSet
| Ev_monitor_notify nat
| Ev_errlogPrintf string string nat

text \<open>
  The constructor of \<^verbatim>\<open>SharedChannel\<close>.  \<open>this0\<close> is the address of the new object.
  Under the lock: if the list is empty the handler is captured, then the channel is
  appended.  After the lock: the captured handler, if any, is told.
\<close>

definition SharedChannel_ctor ::
  "nat \<Rightarrow> Requester \<Rightarrow> ChannelProvider \<Rightarrow> string \<Rightarrow> SharedPV
     \<Rightarrow> SharedChannel \<times> SharedPV \<times> pv_event list" where
  "SharedChannel_ctor this0 requester provider name owner =
     (let self = \<lparr> chan_this = this0, channelName = name,
                   chan_requester = Some requester, chan_provider = Some provider \<rparr>;
          printed = (if debugLvl owner > 5
                     then [Ev_errlogPrintf (getRequesterName requester) name this0] else []);
          handler0 = (if channels owner = [] then handler owner else None);
          owner' = owner\<lparr>channels := channels owner @ [this0]\<rparr>
      in (self, owner',
          printed @ [Ev_lock, Ev_unlock]
          @ (case handler0 of Some h \<Rightarrow> [Ev_onFirstConnect h] | None \<Rightarrow> [])))"

text \<open>
  The destructor.  \<^verbatim>\<open>std::list::remove\<close> erases every element equal to the pointer.
  The inner guard takes the same mutex again while the outer one holds it.
\<close>

definition SharedChannel_dtor :: "SharedChannel \<Rightarrow> SharedPV \<Rightarrow> SharedPV \<times> pv_event list" where
  "SharedChannel_dtor self owner =
     (let owner' = owner\<lparr>channels := removeAll (chan_this self) (channels owner)\<rparr>;
          emptied = (channels owner' = []);
          handler0 = (if emptied then handler owner' else None);
          printed = (if debugLvl owner' > 5
                     then [Ev_errlogPrintf
                             (case chan_requester self of
                                Some req \<Rightarrow> getRequesterName req
                              | None \<Rightarrow> ''<Defunct>'')
                             (channelName self) (chan_this self)]
                     else [])
      in (owner',
          [Ev_lock] @ (if emptied then [Ev_lock, Ev_unlock] else []) @ [Ev_unlock]
          @ (case handler0 of Some h \<Rightarrow> [Ev_onLastDisconnect h] | None \<Rightarrow> [])
          @ printed))"

text \<open>\<^verbatim>\<open>getField\<close>: answer at once if the type is known, else queue the requester.\<close>

definition SharedChannel_getField ::
  "Requester \<Rightarrow> string \<Rightarrow> SharedPV \<Rightarrow> SharedPV \<times> pv_event list" where
  "SharedChannel_getField requester subField owner =
     (let (desc, owner') =
            (if type owner \<noteq> None then (type owner, owner)
             else (None, owner\<lparr>getfields := getfields owner @ [requester]\<rparr>))
      in (owner',
          [Ev_lock, Ev_unlock]
          @ (case desc of Some d \<Rightarrow> [Ev_getDone requester Status_Ok d] | None \<Rightarrow> [])))"

text \<open>\<^verbatim>\<open>createChannelPut\<close>; \<open>ret0\<close> is the address of the new \<^verbatim>\<open>SharedPut\<close>.\<close>

definition SharedChannel_createChannelPut ::
  "nat \<Rightarrow> SharedChannel \<Rightarrow> Requester \<Rightarrow> PVStructure \<Rightarrow> SharedPV
     \<Rightarrow> SharedPut \<times> SharedPV \<times> pv_event list" where
  "SharedChannel_createChannelPut ret0 self requester request owner =
     (let ret = \<lparr> put_this = ret0, put_channel = chan_this self,
                  put_requester = Some requester, put_pvRequest = request \<rparr>;
          owner' = owner\<lparr>puts := puts owner @ [put_this ret]\<rparr>;
          type0 = type owner'
      in (ret, owner',
          [Ev_lock, Ev_unlock]
          @ (case type0 of
               Some t \<Rightarrow> [Ev_channelPutConnect requester Status_Ok (put_this ret) t]
             | None \<Rightarrow> [])))"

text \<open>\<^verbatim>\<open>createChannelRPC\<close>; the connect callback of an RPC carries no type.\<close>

definition SharedChannel_createChannelRPC ::
  "nat \<Rightarrow> SharedChannel \<Rightarrow> Requester \<Rightarrow> PVStructure \<Rightarrow> SharedPV
     \<Rightarrow> SharedRPC \<times> SharedPV \<times> pv_event list" where
  "SharedChannel_createChannelRPC ret0 self requester request owner =
     (let ret = \<lparr> rpc_this = ret0, rpc_channel = chan_this self,
                  rpc_requester = Some requester, rpc_pvRequest = request \<rparr>;
          owner' = owner\<lparr>rpcs := rpcs owner @ [rpc_this ret]\<rparr>;
          opened = (type owner' \<noteq> None)
      in (ret, owner',
          [Ev_lock, Ev_unlock]
          @ (if opened then [Ev_channelRPCConnect requester Status_Ok (rpc_this ret)] else [])))"

text \<open>
  Modelled from the spec: \<^verbatim>\<open>MonitorFIFO\<close>, the base class of the monitor queue, is not
  among the sources.  The spec says: \<^verbatim>\<open>open(type)\<close> makes the queue ready to accept
  posts; \<^verbatim>\<open>post(value, valid)\<close> enqueues an update, in order, and only makes the data
  available; telling the subscriber is the separate \<^verbatim>\<open>notify\<close>, which touches no
  queue.
\<close>

definition MonitorFIFO_open :: "Structure \<Rightarrow> SharedMonitorFIFO \<Rightarrow> SharedMonitorFIFO" where
  "MonitorFIFO_open t m = m\<lparr>mon_opened := Some t\<rparr>"

definition MonitorFIFO_post :: "PVStructure \<Rightarrow> BitSet \<Rightarrow> SharedMonitorFIFO \<Rightarrow> SharedMonitorFIFO" where
  "MonitorFIFO_post val vld m =
     (if mon_opened m = None then m else m\<lparr>mon_queue := mon_queue m @ [(val, vld)]\<rparr>)"

fun MonitorFIFO_posts :: "(PVStructure \<times> BitSet) list \<Rightarrow> SharedMonitorFIFO \<Rightarrow> SharedMonitorFIFO" where
  "MonitorFIFO_posts [] m = m"
| "MonitorFIFO_posts (u # us) m = MonitorFIFO_posts us (MonitorFIFO_post (fst u) (snd u) m)"

text \<open>
  \<^verbatim>\<open>createMonitor\<close>; \<open>ret0\<close> is the address of the new queue.  \<^verbatim>\<open>*owner->current\<close>
  dereferences the pointer; on an empty pointer the model stops with \<open>None\<close>.
\<close>

definition SharedChannel_createMonitor ::
  "nat \<Rightarrow> SharedChannel \<Rightarrow> Requester \<Rightarrow> PVStructure \<Rightarrow> SharedPV
     \<Rightarrow> (SharedMonitorFIFO \<times> SharedPV \<times> pv_event list) option" where
  "SharedChannel_createMonitor ret0 self requester request owner =
     (let ret = \<lparr> mon_this = ret0, mon_channel = chan_this self, mon_requester = requester,
                  mon_pvRequest = request, mon_opened = None, mon_queue = [] \<rparr>;
          owner' = owner\<lparr>monitors := monitors owner @ [mon_this ret]\<rparr>;
          notify = (type owner' \<noteq> None);
          locked =
            (if notify
             then (case (type owner', current owner') of
                     (Some t, Some cur) \<Rightarrow>
                       Some (MonitorFIFO_post cur (valid owner') (MonitorFIFO_open t ret),
                             [Ev_monitor_open (mon_this ret) t,
                              Ev_monitor_post (mon_this ret) cur (valid owner')])
                   | other \<Rightarrow> None)
             else Some (ret, []))
      in case locked of
           None \<Rightarrow> None
         | Some (ret', calls) \<Rightarrow>
             Some (ret', owner',
                   [Ev_lock] @ calls @ [Ev_unlock]
                   @ (if notify then [Ev_monitor_notify (mon_this ret')] else [])))"

text \<open>
  Modelled from the spec: the connect callbacks that are made once the type is known,
  one for each registered put and each registered RPC whose requester is still
  reachable; an unreachable requester is skipped silently.  \<open>put_req\<close> and \<open>rpc_req\<close>
  resolve a registered address to its reachable requester.
\<close>

definition put_connects :: "(nat \<Rightarrow> Requester option) \<Rightarrow> Structure \<Rightarrow> nat list \<Rightarrow> pv_event list" where
  "put_connects put_req t ps =
     concat (map (\<lambda>p. case put_req p of
                         Some req \<Rightarrow> [Ev_channelPutConnect req Status_Ok p t]
                       | None \<Rightarrow> []) ps)"

definition rpc_connects :: "(nat \<Rightarrow> Requester option) \<Rightarrow> nat list \<Rightarrow> pv_event list" where
  "rpc_connects rpc_req ps =
     concat (map (\<lambda>p. case rpc_req p of
                         Some req \<Rightarrow> [Ev_channelRPCConnect req Status_Ok p]
                       | None \<Rightarrow> []) ps)"

text \<open>
  Modelled from the spec: the transition at which the record's type becomes known is
  made by the record itself, outside the channel file.  The spec gives its contract for
  pending attachments: it can happen only while the type is unknown (the type, once
  set, never changes); it stores the type and the first value; it drains the queue of
  waiting \<^verbatim>\<open>getField\<close> requesters, telling each entry once; and it tells the requester
  of each registered put and RPC once.
\<close>

definition SharedPV_type_known ::
  "Structure \<Rightarrow> PVStructure \<Rightarrow> BitSet \<Rightarrow> (nat \<Rightarrow> Requester option) \<Rightarrow> (nat \<Rightarrow> Requester option)
     \<Rightarrow> SharedPV \<Rightarrow> (SharedPV \<times> pv_event list) option" where
  "SharedPV_type_known t val vld put_req rpc_req owner =
     (if type owner \<noteq> None then None
      else Some (owner\<lparr>type := Some t, current := Some val, valid := vld, getfields := []\<rparr>,
                 [Ev_lock, Ev_unlock]
                 @ put_connects put_req t (puts owner)
                 @ rpc_connects rpc_req (rpcs owner)
                 @ map (\<lambda>req. Ev_getDone req Status_Ok t) (getfields owner)))"

text \<open>Which events tell a requester about a given put, a given RPC, or a type.\<close>

fun about_put :: "nat \<Rightarrow> pv_event \<Rightarrow> bool" where
  "about_put p (Ev_channelPutConnect req sts q t) = (q = p)"
| "about_put p e = False"

fun about_rpc :: "nat \<Rightarrow> pv_event \<Rightarrow> bool" where
  "about_rpc p (Ev_channelRPCConnect req sts q) = (q = p)"
| "about_rpc p e = False"

fun is_getDone :: "pv_event \<Rightarrow> bool" where
  "is_getDone (Ev_getDone req sts t) = True"
| "is_getDone e = False"

text \<open>Concrete inputs: a record nobody has attached to, unopened and opened.\<close>

definition fresh_pv :: SharedPV where
  "fresh_pv =
     \<lparr> channels = [], puts = [], rpcs = [], monitors = [], getfields = [],
       handler = Some (Handler 7), type = None, current = None, valid = [], debugLvl = 0 \<rparr>"

definition opened_pv :: SharedPV where
  "opened_pv = fresh_pv\<lparr>type := Some [''value''], current := Some [(''value'', 42)], valid := [0]\<rparr>"


section \<open>Concurrent opening and closing of channels\<close>

text \<open>
  Threads that construct and destroy channels of one record, interleaved at the grain
  of the statements of the constructor and the destructor.  A program counter names
  the statement a thread executes next:

  \<^item> constructor: \<open>Ctor_lock\<close> is \<^verbatim>\<open>Guard G(owner->mutex)\<close>, \<open>Ctor_test\<close> the test
    \<^verbatim>\<open>owner->channels.empty()\<close>, \<open>Ctor_capture\<close> the assignment
    \<^verbatim>\<open>handler = owner->handler\<close>, \<open>Ctor_push\<close> the \<^verbatim>\<open>push_back(this)\<close>,
    \<open>Ctor_unlock\<close> the end of the guarded block, \<open>Ctor_notify\<close> the statement
    \<^verbatim>\<open>if(handler) handler->onFirstConnect(owner)\<close>;
  \<^item> destructor: \<open>Dtor_lock\<close>, \<open>Dtor_remove\<close> (\<^verbatim>\<open>channels.remove(this)\<close>),
    \<open>Dtor_test\<close>, \<open>Dtor_relock\<close> (the inner guard), \<open>Dtor_capture\<close>,
    \<open>Dtor_reunlock\<close> (end of the inner block), \<open>Dtor_unlock\<close>, \<open>Dtor_notify\<close>.

  The reference counter and the debug print of the two methods read and write neither
  the channel list nor the handler and are left out of this model.
\<close>

datatype pc =
  Ctor_lock | Ctor_test | Ctor_capture | Ctor_push | Ctor_unlock | Ctor_notify
| Dtor_lock | Dtor_remove | Dtor_test | Dtor_relock | Dtor_capture | Dtor_reunlock
| Dtor_unlock | Dtor_notify
| Returned

text \<open>
  A thread: its program counter, the address \<open>self\<close> of the channel it constructs or
  destroys, and its local variable \<^verbatim>\<open>handler\<close>, here \<open>captured\<close>.
\<close>

record thread =
  pc :: pc
  self :: nat
  captured :: "Handler option"

text \<open>
  The system: the record, its mutex, the threads (a thread's number is its index) and
  the calls made on the handler so far, each with the thread that made it.  The mutex
  of the record is an \<^verbatim>\<open>epicsMutex\<close>, which is recursive: it is free, or held by
  one thread a number of times, and it is released when that thread has unlocked it
  as often as it has locked it.
\<close>

record system =
  sys_owner :: SharedPV
  sys_mutex :: "(nat \<times> nat) option"
  sys_threads :: "thread list"
  sys_log :: "(nat \<times> pv_event) list"

text \<open>Locking succeeds on a free mutex and for the holder; any other thread waits.\<close>

fun mutex_lock :: "nat \<Rightarrow> (nat \<times> nat) option \<Rightarrow> (nat \<times> nat) option option" where
  "mutex_lock t None = Some (Some (t, 1))"
| "mutex_lock t (Some (u, d)) = (if u = t then Some (Some (t, Suc d)) else None)"

fun mutex_unlock :: "(nat \<times> nat) option \<Rightarrow> (nat \<times> nat) option" where
  "mutex_unlock None = None"
| "mutex_unlock (Some (u, d)) = (if d \<le> 1 then None else Some (u, d - 1))"

definition goto :: "nat \<Rightarrow> thread \<Rightarrow> pc \<Rightarrow> system \<Rightarrow> system" where
  "goto t th p s = s\<lparr>sys_threads := (sys_threads s)[t := th\<lparr>pc := p\<rparr>]\<rparr>"

definition set_channels :: "nat list \<Rightarrow> system \<Rightarrow> system" where
  "set_channels cs s = s\<lparr>sys_owner := (sys_owner s)\<lparr>channels := cs\<rparr>\<rparr>"

text \<open>One statement of thread \<open>t\<close>, whose state is \<open>th\<close>; \<open>None\<close> when it cannot move.\<close>

fun exec :: "pc \<Rightarrow> nat \<Rightarrow> thread \<Rightarrow> system \<Rightarrow> system option" where
  "exec Ctor_lock t th s =
     (case mutex_lock t (sys_mutex s) of
        None \<Rightarrow> None
      | Some m \<Rightarrow> Some (goto t th Ctor_test (s\<lparr>sys_mutex := m\<rparr>)))"
| "exec Ctor_test t th s =
     Some (goto t th (if channels (sys_owner s) = [] then Ctor_capture else Ctor_push) s)"
| "exec Ctor_capture t th s =
     Some (goto t (th\<lparr>captured := handler (sys_owner s)\<rparr>) Ctor_push s)"
| "exec Ctor_push t th s =
     Some (goto t th Ctor_unlock (set_channels (channels (sys_owner s) @ [self th]) s))"
| "exec Ctor_unlock t th s =
     Some (goto t th Ctor_notify (s\<lparr>sys_mutex := mutex_unlock (sys_mutex s)\<rparr>))"
| "exec Ctor_notify t th s =
     Some (goto t th Returned
       (s\<lparr>sys_log := sys_log s @
            (case captured th of Some h \<Rightarrow> [(t, Ev_onFirstConnect h)] | None \<Rightarrow> [])\<rparr>))"
| "exec Dtor_lock t th s =
     (case mutex_lock t (sys_mutex s) of
        None \<Rightarrow> None
      | Some m \<Rightarrow> Some (goto t th Dtor_remove (s\<lparr>sys_mutex := m\<rparr>)))"
| "exec Dtor_remove t th s =
     Some (goto t th Dtor_test (set_channels (removeAll (self th) (channels (sys_owner s))) s))"
| "exec Dtor_test t th s =
     Some (goto t th (if channels (sys_owner s) = [] then Dtor_relock else Dtor_unlock) s)"
| "exec Dtor_relock t th s =
     (case mutex_lock t (sys_mutex s) of
        None \<Rightarrow> None
      | Some m \<Rightarrow> Some (goto t th Dtor_capture (s\<lparr>sys_mutex := m\<rparr>)))"
| "exec Dtor_capture t th s =
     Some (goto t (th\<lparr>captured := handler (sys_owner s)\<rparr>) Dtor_reunlock s)"
| "exec Dtor_reunlock t th s =
     Some (goto t th Dtor_unlock (s\<lparr>sys_mutex := mutex_unlock (sys_mutex s)\<rparr>))"
| "exec Dtor_unlock t th s =
     Some (goto t th Dtor_notify (s\<lparr>sys_mutex := mutex_unlock (sys_mutex s)\<rparr>))"
| "exec Dtor_notify t th s =
     Some (goto t th Returned
       (s\<lparr>sys_log := sys_log s @
            (case captured th of Some h \<Rightarrow> [(t, Ev_onLastDisconnect h)] | None \<Rightarrow> [])\<rparr>))"
| "exec Returned t th s = None"

definition step :: "nat \<Rightarrow> system \<Rightarrow> system option" where
  "step t s =
     (if t < length (sys_threads s)
      then exec (pc (sys_threads s ! t)) t (sys_threads s ! t) s
      else None)"

text \<open>
  A schedule is the list of thread numbers in the order in which the scheduler picks
  them.  A thread picked while it cannot move (it waits for the mutex, or it has
  returned) leaves the system as it is.
\<close>

fun run :: "nat list \<Rightarrow> system \<Rightarrow> system" where
  "run [] s = s"
| "run (t # ts) s = run ts (case step t s of Some s' \<Rightarrow> s' | None \<Rightarrow> s)"

definition spawn :: "pc \<Rightarrow> nat \<Rightarrow> thread" where
  "spawn p a = \<lparr> pc = p, self = a, captured = None \<rparr>"

definition start :: "SharedPV \<Rightarrow> thread list \<Rightarrow> system" where
  "start pv ths = \<lparr> sys_owner = pv, sys_mutex = None, sys_threads = ths, sys_log = [] \<rparr>"

definition all_returned :: "system \<Rightarrow> bool" where
  "all_returned s = list_all (\<lambda>th. pc th = Returned) (sys_threads s)"

text \<open>How many times a thread holds the mutex when it is at a program counter.\<close>

fun held :: "pc \<Rightarrow> nat" where
  "held Ctor_test = 1"
| "held Ctor_capture = 1"
| "held Ctor_push = 1"
| "held Ctor_unlock = 1"
| "held Dtor_remove = 1"
| "held Dtor_test = 1"
| "held Dtor_relock = 1"
| "held Dtor_capture = 2"
| "held Dtor_reunlock = 2"
| "held Dtor_unlock = 1"
| "held p = 0"

text \<open>
  The mutex is consistent with the program counters: free when no thread is inside a
  guarded block, and otherwise held, to the right depth, by the only thread inside.
\<close>

definition mutex_ok :: "system \<Rightarrow> bool" where
  "mutex_ok s =
     (case sys_mutex s of
        None \<Rightarrow> list_all (\<lambda>th. held (pc th) = 0) (sys_threads s)
      | Some (t, d) \<Rightarrow>
          t < length (sys_threads s) \<and> held (pc (sys_threads s ! t)) = d \<and> 0 < d
          \<and> list_all (\<lambda>u. u = t \<or> held (pc (sys_threads s ! u)) = 0)
               [0 ..< length (sys_threads s)])"

fun is_first_connect :: "pv_event \<Rightarrow> bool" where
  "is_first_connect (Ev_onFirstConnect h) = True"
| "is_first_connect e = False"

fun is_last_disconnect :: "pv_event \<Rightarrow> bool" where
  "is_last_disconnect (Ev_onLastDisconnect h) = True"
| "is_last_disconnect e = False"

text \<open>The calls thread \<open>t\<close> has made on the handler.\<close>

definition calls_of :: "nat \<Rightarrow> system \<Rightarrow> pv_event list" where
  "calls_of t s = map snd (filter (\<lambda>e. fst e = t) (sys_log s))"


text \<open>
  The calls a thread that has passed its lock statement will still make on the
  handler, read off its program counter, its local variable and the record.
\<close>

definition first_call :: "Handler option \<Rightarrow> pv_event list" where
  "first_call c = (case c of Some h \<Rightarrow> [Ev_onFirstConnect h] | None \<Rightarrow> [])"

definition last_call :: "Handler option \<Rightarrow> pv_event list" where
  "last_call c = (case c of Some h \<Rightarrow> [Ev_onLastDisconnect h] | None \<Rightarrow> [])"

fun due :: "pc \<Rightarrow> thread \<Rightarrow> SharedPV \<Rightarrow> pv_event list" where
  "due Ctor_test th pv =
     (if channels pv = [] then first_call (handler pv) else first_call (captured th))"
| "due Ctor_capture th pv = first_call (handler pv)"
| "due Ctor_push th pv = first_call (captured th)"
| "due Ctor_unlock th pv = first_call (captured th)"
| "due Ctor_notify th pv = first_call (captured th)"
| "due Dtor_remove th pv =
     (if removeAll (self th) (channels pv) = [] then last_call (handler pv)
      else last_call (captured th))"
| "due Dtor_test th pv =
     (if channels pv = [] then last_call (handler pv) else last_call (captured th))"
| "due Dtor_relock th pv = last_call (handler pv)"
| "due Dtor_capture th pv = last_call (handler pv)"
| "due Dtor_reunlock th pv = last_call (captured th)"
| "due Dtor_unlock th pv = last_call (captured th)"
| "due Dtor_notify th pv = last_call (captured th)"
| "due p th pv = []"

definition due_of :: "nat \<Rightarrow> system \<Rightarrow> pv_event list" where
  "due_of t s = due (pc (sys_threads s ! t)) (sys_threads s ! t) (sys_owner s)"

definition entered :: "nat \<Rightarrow> system \<Rightarrow> bool" where
  "entered t s = (pc (sys_threads s ! t) \<noteq> Ctor_lock \<and> pc (sys_threads s ! t) \<noteq> Dtor_lock)"

text \<open>
  The invariant of a system in which every thread constructs a channel, on a record
  with handler \<open>h\<close> whose channel list was empty at the start.  \<open>open_ok h e p c\<close>
  says what is known of a thread at \<open>p\<close> whose local variable holds \<open>c\<close> when the
  channel list is empty (\<open>e\<close>) or not; \<open>open_due\<close> counts the one call a thread has
  claimed and not yet made.
\<close>

fun open_ok :: "Handler \<Rightarrow> bool \<Rightarrow> pc \<Rightarrow> Handler option \<Rightarrow> bool" where
  "open_ok h e Ctor_lock c = (c = None)"
| "open_ok h e Ctor_test c = (c = None)"
| "open_ok h e Ctor_capture c = (c = None \<and> e)"
| "open_ok h e Ctor_push c = (c = Some h \<or> (c = None \<and> \<not> e))"
| "open_ok h e Ctor_unlock c = (\<not> e \<and> (c = None \<or> c = Some h))"
| "open_ok h e Ctor_notify c = (\<not> e \<and> (c = None \<or> c = Some h))"
| "open_ok h e Returned c = (\<not> e)"
| "open_ok h e p c = False"

fun open_due :: "pc \<Rightarrow> Handler option \<Rightarrow> nat" where
  "open_due Ctor_capture c = 1"
| "open_due Ctor_push c = (if c = None then 0 else 1)"
| "open_due Ctor_unlock c = (if c = None then 0 else 1)"
| "open_due Ctor_notify c = (if c = None then 0 else 1)"
| "open_due p c = 0"

definition thread_due :: "thread \<Rightarrow> nat" where
  "thread_due th = open_due (pc th) (captured th)"

definition opens_inv :: "Handler \<Rightarrow> system \<Rightarrow> bool" where
  "opens_inv h s =
     (mutex_ok s \<and> handler (sys_owner s) = Some h
      \<and> (\<forall>u < length (sys_threads s).
            open_ok h (channels (sys_owner s) = []) (pc (sys_threads s ! u))
              (captured (sys_threads s ! u)))
      \<and> (\<forall>e \<in> set (sys_log s). snd e = Ev_onFirstConnect h)
      \<and> (if channels (sys_owner s) = [] then sys_log s = []
         else length (sys_log s) + sum_list (map thread_due (sys_threads s)) = 1))"


text \<open>
  The number of statements a thread has still to execute, at most; the work left in a
  system is the sum over its threads.
\<close>

fun remaining :: "pc \<Rightarrow> nat" where
  "remaining Ctor_lock = 6"
| "remaining Ctor_test = 5"
| "remaining Ctor_capture = 4"
| "remaining Ctor_push = 3"
| "remaining Ctor_unlock = 2"
| "remaining Ctor_notify = 1"
| "remaining Dtor_lock = 8"
| "remaining Dtor_remove = 7"
| "remaining Dtor_test = 6"
| "remaining Dtor_relock = 5"
| "remaining Dtor_capture = 4"
| "remaining Dtor_reunlock = 3"
| "remaining Dtor_unlock = 2"
| "remaining Dtor_notify = 1"
| "remaining Returned = 0"

definition work_left :: "system \<Rightarrow> nat" where
  "work_left s = sum_list (map (\<lambda>th. remaining (pc th)) (sys_threads s))"


section \<open>Properties of the registry\<close>

lemma registry_after_never_registered:
  "\<forall>f. Register f \<in> set cs \<longrightarrow> getFactoryName f \<noteq> X \<Longrightarrow> m X = None \<Longrightarrow>
     registry_after cs m X = None"
proof (induction cs arbitrary: m)
  case Nil
  then show ?case by simp
next
  case (Cons c cs)
  have step: "registry_call_apply c m X = None"
  proof (cases c)
    case (Register f)
    with Cons.prems have "getFactoryName f \<noteq> X" by simp
    with Register Cons.prems(2) show ?thesis
      by (simp add: registerChannelProviderFactory_def)
  next
    case (Unregister f)
    with Cons.prems(2) show ?thesis
      by (simp add: unregisterChannelProviderFactory_def)
  qed
  have rest: "\<forall>f. Register f \<in> set cs \<longrightarrow> getFactoryName f \<noteq> X"
    using Cons.prems(1) by simp
  have "registry_after cs (registry_call_apply c m) X = None"
    using rest step by (rule Cons.IH [where m = "registry_call_apply c m"])
  then show ?case by simp
qed

text \<open>
  Claim C7.  For every provider name and whatever the registry holds, lookup and
  creation search the map under the canonical name \<open>pva\<close> when the name given is the
  historical \<open>pvAccess\<close>, and under the name given otherwise, and return what the entry
  found there produces (the empty pointer when there is none).  So a call with
  \<open>pvAccess\<close> is answered by the entry of \<open>pva\<close>, and gives exactly the outcome of the
  same call with \<open>pva\<close>: the same returned pointer and the same effect on the
  factory's state.
\<close>

theorem legacy_name_is_alias:
  "getProvider name channelProviders w =
     (case channelProviders (if name = ''pvAccess'' then ''pva'' else name) of
        Some g \<Rightarrow> sharedInstance g w | None \<Rightarrow> (None, w))
   \<and> createProvider name channelProviders w =
     (case channelProviders (if name = ''pvAccess'' then ''pva'' else name) of
        Some g \<Rightarrow> newInstance g w | None \<Rightarrow> (None, w))
   \<and> getProvider ''pvAccess'' channelProviders w =
     (case channelProviders ''pva'' of Some g \<Rightarrow> sharedInstance g w | None \<Rightarrow> (None, w))
   \<and> createProvider ''pvAccess'' channelProviders w =
     (case channelProviders ''pva'' of Some g \<Rightarrow> newInstance g w | None \<Rightarrow> (None, w))
   \<and> getProvider ''pva'' channelProviders w =
     (case channelProviders ''pva'' of Some g \<Rightarrow> sharedInstance g w | None \<Rightarrow> (None, w))
   \<and> createProvider ''pva'' channelProviders w =
     (case channelProviders ''pva'' of Some g \<Rightarrow> newInstance g w | None \<Rightarrow> (None, w))
   \<and> getProvider ''pvAccess'' channelProviders w = getProvider ''pva'' channelProviders w
   \<and> createProvider ''pvAccess'' channelProviders w = createProvider ''pva'' channelProviders w"
  by (simp add: getProvider_def createProvider_def)

text \<open>
  Claim C8 as stated fails for the name \<open>pvAccess\<close>, in both directions.  A factory
  that declares this name is stored under it, but every lookup of \<open>pvAccess\<close> searches
  \<open>pva\<close>: on a registry holding only that factory, lookup and creation are empty
  although the factory would produce a provider.  And on a registry holding only a
  factory named \<open>pva\<close>, the name \<open>pvAccess\<close> was never registered, yet lookup and
  creation with it return a provider.
\<close>

theorem registered_legacy_factory_not_found:
  "getProvider (getFactoryName legacy_factory)
       (registerChannelProviderFactory legacy_factory Map.empty) 0 = (None, 0)
   \<and> sharedInstance legacy_factory 0 = (Some (ChannelProvider 0), 0)
   \<and> createProvider (getFactoryName legacy_factory)
       (registerChannelProviderFactory legacy_factory Map.empty) 0 = (None, 0)
   \<and> newInstance legacy_factory 0 = (Some (ChannelProvider 1), 1)
   \<and> registry_after [Register pva_factory] Map.empty ''pvAccess'' = None
   \<and> getProvider ''pvAccess'' (registry_after [Register pva_factory] Map.empty) 0
       = (Some (ChannelProvider 0), 0)
   \<and> createProvider ''pvAccess'' (registry_after [Register pva_factory] Map.empty) 0
       = (Some (ChannelProvider 1), 1)"
  by (simp add: getProvider_def createProvider_def registerChannelProviderFactory_def
      legacy_factory_def pva_factory_def counting_factory_def)

text \<open>
  Claim C8, amended.  For every name \<open>X\<close> other than the historical \<open>pvAccess\<close>:
  after a factory declaring \<open>X\<close> is registered, lookup and creation with \<open>X\<close> return
  what that factory's \<^verbatim>\<open>sharedInstance\<close> and \<^verbatim>\<open>newInstance\<close> produce; after it is
  unregistered, both return the empty pointer; and after any history of calls on the
  registry in which no factory declaring \<open>X\<close> was ever registered (factories of that
  name may have been unregistered, factories of other names registered and
  unregistered), both return the empty pointer as well.  An empty result is a value,
  not a fault, and leaves the factories' state alone.  For \<open>pvAccess\<close> itself both
  calls are answered by the entry of \<open>pva\<close>.
\<close>

theorem register_lookup_unregister:
  assumes "X \<noteq> ''pvAccess''"
  shows "(getFactoryName f = X \<longrightarrow>
           getProvider X (registerChannelProviderFactory f channelProviders) w = sharedInstance f w
         \<and> createProvider X (registerChannelProviderFactory f channelProviders) w = newInstance f w
         \<and> getProvider X (unregisterChannelProviderFactory f channelProviders) w = (None, w)
         \<and> createProvider X (unregisterChannelProviderFactory f channelProviders) w = (None, w))
       \<and> ((\<forall>g. Register g \<in> set cs \<longrightarrow> getFactoryName g \<noteq> X) \<longrightarrow>
           getProvider X (registry_after cs Map.empty) w = (None, w)
         \<and> createProvider X (registry_after cs Map.empty) w = (None, w))
       \<and> getProvider ''pvAccess'' channelProviders w =
           (case channelProviders ''pva'' of Some g \<Rightarrow> sharedInstance g w | None \<Rightarrow> (None, w))
       \<and> createProvider ''pvAccess'' channelProviders w =
           (case channelProviders ''pva'' of Some g \<Rightarrow> newInstance g w | None \<Rightarrow> (None, w))"
proof -
  have reg: "getFactoryName f = X \<longrightarrow>
           getProvider X (registerChannelProviderFactory f channelProviders) w = sharedInstance f w
         \<and> createProvider X (registerChannelProviderFactory f channelProviders) w = newInstance f w
         \<and> getProvider X (unregisterChannelProviderFactory f channelProviders) w = (None, w)
         \<and> createProvider X (unregisterChannelProviderFactory f channelProviders) w = (None, w)"
    using assms
    by (simp add: getProvider_def createProvider_def registerChannelProviderFactory_def
        unregisterChannelProviderFactory_def)
  have never: "(\<forall>g. Register g \<in> set cs \<longrightarrow> getFactoryName g \<noteq> X) \<longrightarrow>
           getProvider X (registry_after cs Map.empty) w = (None, w)
         \<and> createProvider X (registry_after cs Map.empty) w = (None, w)"
  proof
    assume "\<forall>g. Register g \<in> set cs \<longrightarrow> getFactoryName g \<noteq> X"
    then have "registry_after cs Map.empty X = None"
      by (rule registry_after_never_registered) simp
    with assms show "getProvider X (registry_after cs Map.empty) w = (None, w)
         \<and> createProvider X (registry_after cs Map.empty) w = (None, w)"
      by (simp add: getProvider_def createProvider_def)
  qed
  have legacy: "getProvider ''pvAccess'' channelProviders w =
           (case channelProviders ''pva'' of Some g \<Rightarrow> sharedInstance g w | None \<Rightarrow> (None, w))
         \<and> createProvider ''pvAccess'' channelProviders w =
           (case channelProviders ''pva'' of Some g \<Rightarrow> newInstance g w | None \<Rightarrow> (None, w))"
    by (simp add: getProvider_def createProvider_def)
  from reg never legacy show ?thesis by blast
qed

theorem register_lookup_unregister_witness:
  "getProvider ''pva'' (registerChannelProviderFactory pva_factory Map.empty) 0
     = (Some (ChannelProvider 0), 0)
   \<and> createProvider ''pva'' (registerChannelProviderFactory pva_factory Map.empty) 0
     = (Some (ChannelProvider 1), 1)
   \<and> getProvider ''pva'' (unregisterChannelProviderFactory pva_factory
        (registerChannelProviderFactory pva_factory Map.empty)) 0 = (None, 0)
   \<and> createProvider ''pva'' (unregisterChannelProviderFactory pva_factory
        (registerChannelProviderFactory pva_factory Map.empty)) 0 = (None, 0)
   \<and> getProvider ''ca''
        (registry_after [Register pva_factory, Unregister (counting_factory ''ca''),
                         Unregister legacy_factory] Map.empty) 0
     = (None, 0)
   \<and> createProvider ''ca''
        (registry_after [Register pva_factory, Unregister (counting_factory ''ca''),
                         Unregister legacy_factory] Map.empty) 0
     = (None, 0)"
proof -
  let ?cs = "[Register pva_factory, Unregister (counting_factory ''ca''),
              Unregister legacy_factory]"
  have ne: "''pva'' \<noteq> ''pvAccess''" and ne': "''ca'' \<noteq> ''pvAccess''"
    by simp_all
  have name: "getFactoryName pva_factory = ''pva''"
    by (simp add: pva_factory_def counting_factory_def)
  have others: "\<forall>g. Register g \<in> set ?cs \<longrightarrow> getFactoryName g \<noteq> ''ca''"
    by (simp add: pva_factory_def counting_factory_def)
  have produced: "sharedInstance pva_factory 0 = (Some (ChannelProvider 0), 0)"
      "newInstance pva_factory 0 = (Some (ChannelProvider 1), 1)"
    by (simp_all add: pva_factory_def counting_factory_def)
  from register_lookup_unregister
    [OF ne, where f = pva_factory and channelProviders = Map.empty and w = 0] name
  have a: "getProvider ''pva'' (registerChannelProviderFactory pva_factory Map.empty) 0
             = sharedInstance pva_factory 0"
    and b: "createProvider ''pva'' (registerChannelProviderFactory pva_factory Map.empty) 0
             = newInstance pva_factory 0"
    by blast+
  from register_lookup_unregister
    [OF ne, where f = pva_factory
       and channelProviders = "registerChannelProviderFactory pva_factory Map.empty"
       and w = 0] name
  have c: "getProvider ''pva'' (unregisterChannelProviderFactory pva_factory
        (registerChannelProviderFactory pva_factory Map.empty)) 0 = (None, 0)"
    and d: "createProvider ''pva'' (unregisterChannelProviderFactory pva_factory
        (registerChannelProviderFactory pva_factory Map.empty)) 0 = (None, 0)"
    by blast+
  from register_lookup_unregister [OF ne', where cs = ?cs and w = 0] others
  have e: "getProvider ''ca'' (registry_after ?cs Map.empty) 0 = (None, 0)"
    and e': "createProvider ''ca'' (registry_after ?cs Map.empty) 0 = (None, 0)"
    by blast+
  from a b c d e e' produced show ?thesis by simp
qed

section \<open>Properties of operations\<close>

lemma Impl_complete_sets_done:
  "Impl_done (fst (snd (Impl_complete strict sts val s)))"
  by (simp add: Impl_complete_def)

lemma Impl_complete_when_done:
  "Impl_done (fst s) \<Longrightarrow> snd (Impl_complete strict sts val s) = s"
  by (simp add: Impl_complete_def)

lemma Operation_call_sets_done:
  "Impl_done (fst (snd (Operation_call (Impl_complete strict) c s)))"
  by (cases c)
     (simp_all add: Operation_complete_def Operation_complete_status_def
        Operation_complete_value_def Impl_complete_sets_done)

lemma Operation_call_when_done:
  "Impl_done (fst s) \<Longrightarrow> snd (Operation_call (Impl_complete strict) c s) = s"
  by (cases c)
     (simp_all add: Operation_complete_def Operation_complete_status_def
        Operation_complete_value_def Impl_complete_when_done)

lemma Operation_calls_when_done:
  "Impl_done (fst s) \<Longrightarrow> Operation_calls (Impl_complete strict) cs s = s"
  by (induction cs) (simp_all add: Operation_call_when_done)

lemma Operation_call_pending:
  assumes "\<not> Impl_done (fst s)"
  shows "\<exists>sts val. snd (snd (Operation_call (Impl_complete strict) c s)) =
           snd s @ (case getRequester (fst s) of Some req \<Rightarrow> [Ev_done req sts val] | None \<Rightarrow> [])"
  using assms
  by (cases c)
     (auto simp: Operation_complete_def Operation_complete_status_def
        Operation_complete_value_def Impl_complete_def)

lemma Operation_call_at_most_one:
  "length (filter is_done_event (snd (snd (Operation_call (Impl_complete strict) c s))))
     \<le> Suc (length (filter is_done_event (snd s)))"
proof (cases "Impl_done (fst s)")
  case True
  then show ?thesis by (simp add: Operation_call_when_done)
next
  case False
  from Operation_call_pending [OF False, of strict c]
  obtain sts val where "snd (snd (Operation_call (Impl_complete strict) c s)) =
      snd s @ (case getRequester (fst s) of Some req \<Rightarrow> [Ev_done req sts val] | None \<Rightarrow> [])"
    by blast
  then show ?thesis by (simp split: option.splits)
qed

text \<open>
  Claim C1.  \<^verbatim>\<open>Cleanup\<close> on a pending operation makes one call of \<^verbatim>\<open>complete\<close>, with
  the error status \<open>Implicit Cancel\<close> and no value, on the state it found, and deletes
  the object after that call has returned; on a completed operation it only deletes the
  object, whatever \<^verbatim>\<open>complete\<close> would do.  This holds for every implementation \<open>cmpl\<close>
  of the virtual method.
\<close>

theorem Cleanup_implicit_cancel:
  "(\<not> Impl_done (fst s) \<longrightarrow>
      Cleanup cmpl s =
        (case cmpl (Status STATUSTYPE_ERROR ''Implicit Cancel'') None s of
           (Some e, s') \<Rightarrow> (Some e, s')
         | (None, s') \<Rightarrow> (None, (fst s', snd s' @ [Ev_delete]))))
   \<and> (Impl_done (fst s) \<longrightarrow> Cleanup cmpl s = (None, (fst s, snd s @ [Ev_delete])))"
  by (simp add: Cleanup_def Status_error_def)

theorem Cleanup_implicit_cancel_witness:
  "\<not> Impl_done (fst (example_impl, []))
   \<and> snd (snd (Cleanup (Impl_complete True) (example_impl, []))) =
       [Ev_done (Requester ''client'') (Status STATUSTYPE_ERROR ''Implicit Cancel'') None, Ev_delete]
   \<and> Impl_done (fst (example_impl\<lparr>Impl_done := True\<rparr>, []))
   \<and> snd (snd (Cleanup (Impl_complete True) (example_impl\<lparr>Impl_done := True\<rparr>, []))) = [Ev_delete]"
proof -
  have pending: "\<not> Impl_done (fst (example_impl, []))"
    by (simp add: example_impl_def)
  have completed: "Impl_done (fst (example_impl\<lparr>Impl_done := True\<rparr>, []))"
    by simp
  from Cleanup_implicit_cancel [of "(example_impl, [])" "Impl_complete True"] pending
  have a: "snd (snd (Cleanup (Impl_complete True) (example_impl, []))) =
      [Ev_done (Requester ''client'') (Status STATUSTYPE_ERROR ''Implicit Cancel'') None, Ev_delete]"
    by (simp add: Impl_complete_def example_impl_def)
  from Cleanup_implicit_cancel
    [of "(example_impl\<lparr>Impl_done := True\<rparr>, [])" "Impl_complete True"] completed
  have b: "snd (snd (Cleanup (Impl_complete True) (example_impl\<lparr>Impl_done := True\<rparr>, []))) =
      [Ev_delete]"
    by simp
  from pending completed a b show ?thesis by blast
qed

text \<open>
  Claim C4.  With \<^verbatim>\<open>Impl::complete\<close> as the spec describes it, in either reading of
  the second call: after a first call of any of the three entry points, further calls
  of any of them, in any number and order, leave the trace where the first call left
  it; a sequence of calls adds at most one completion notification to the trace; and
  on a pending operation whose requester is reachable the sequence adds exactly one,
  directly after what was there.
\<close>

theorem first_completion_authoritative:
  "snd (Operation_calls (Impl_complete strict) (c # cs) s)
     = snd (snd (Operation_call (Impl_complete strict) c s))
   \<and> length (filter is_done_event (snd (Operation_calls (Impl_complete strict) (c # cs) s)))
       \<le> Suc (length (filter is_done_event (snd s)))
   \<and> (\<not> Impl_done (fst s) \<longrightarrow> getRequester (fst s) = Some req \<longrightarrow>
        (\<exists>sts val. snd (Operation_calls (Impl_complete strict) (c # cs) s)
                      = snd s @ [Ev_done req sts val]))"
proof -
  have first: "snd (Operation_calls (Impl_complete strict) (c # cs) s)
      = snd (snd (Operation_call (Impl_complete strict) c s))"
    by (simp add: Operation_calls_when_done Operation_call_sets_done)
  have bound: "length (filter is_done_event (snd (Operation_calls (Impl_complete strict) (c # cs) s)))
      \<le> Suc (length (filter is_done_event (snd s)))"
    unfolding first by (rule Operation_call_at_most_one)
  have one: "\<exists>sts val. snd (Operation_calls (Impl_complete strict) (c # cs) s)
                      = snd s @ [Ev_done req sts val]"
    if "\<not> Impl_done (fst s)" and "getRequester (fst s) = Some req"
    using Operation_call_pending [OF that(1), of strict c] that(2) unfolding first by simp
  from first bound one show ?thesis by blast
qed

theorem first_completion_authoritative_witness:
  "\<not> Impl_done (fst (example_impl, []))
   \<and> getRequester (fst (example_impl, [])) = Some (Requester ''client'')
   \<and> snd (Operation_calls (Impl_complete True)
        [Call_complete_status (Status STATUSTYPE_ERROR ''no''), Call_complete,
         Call_complete_value [(''value'', 1)] [0]] (example_impl, []))
     = [Ev_done (Requester ''client'') (Status STATUSTYPE_ERROR ''no'') None]"
proof -
  have pending: "\<not> Impl_done (fst (example_impl, []))"
    and req: "getRequester (fst (example_impl, [])) = Some (Requester ''client'')"
    by (simp_all add: example_impl_def)
  have one: "snd (snd (Operation_call (Impl_complete True)
        (Call_complete_status (Status STATUSTYPE_ERROR ''no'')) (example_impl, [])))
     = [Ev_done (Requester ''client'') (Status STATUSTYPE_ERROR ''no'') None]"
    by (simp add: Operation_complete_status_def Impl_complete_def example_impl_def)
  from first_completion_authoritative
    [of True "Call_complete_status (Status STATUSTYPE_ERROR ''no'')"
        "[Call_complete, Call_complete_value [(''value'', 1)] [0]]" "(example_impl, [])"]
  have "snd (Operation_calls (Impl_complete True)
        [Call_complete_status (Status STATUSTYPE_ERROR ''no''), Call_complete,
         Call_complete_value [(''value'', 1)] [0]] (example_impl, []))
     = snd (snd (Operation_call (Impl_complete True)
        (Call_complete_status (Status STATUSTYPE_ERROR ''no'')) (example_impl, [])))"
    by blast
  with one pending req show ?thesis by simp
qed

text \<open>
  Claim C9.  \<^verbatim>\<open>channelName()\<close> is the empty string when \<^verbatim>\<open>getChannel()\<close> is empty
  and the channel's name otherwise.  \<^verbatim>\<open>info\<close> and \<^verbatim>\<open>warn\<close> hand the message to the
  requester, with the info or warning severity, when \<^verbatim>\<open>getRequester()\<close> is not empty;
  when it is empty they change nothing at all.  None of the three has a failing branch.
\<close>

theorem expired_references_are_not_faults:
  "(getChannel impl = None \<longrightarrow> Operation_channelName impl = [])
   \<and> (getChannel impl = Some chan \<longrightarrow> Operation_channelName impl = channelName chan)
   \<and> (getRequester (fst s) = Some req \<longrightarrow>
        Operation_info msg s = (fst s, snd s @ [Ev_message req msg infoMessage])
      \<and> Operation_warn msg s = (fst s, snd s @ [Ev_message req msg warningMessage]))
   \<and> (getRequester (fst s) = None \<longrightarrow> Operation_info msg s = s \<and> Operation_warn msg s = s)"
  by (simp add: Operation_channelName_def getChannelName_def Operation_info_def
      Operation_warn_def)

theorem expired_references_are_not_faults_witness:
  "getChannel (example_impl\<lparr>getChannel := None\<rparr>) = None
   \<and> Operation_channelName (example_impl\<lparr>getChannel := None\<rparr>) = []
   \<and> Operation_channelName example_impl = ''pv:counter''
   \<and> Operation_info ''slow'' (example_impl, [])
       = (example_impl, [Ev_message (Requester ''client'') ''slow'' infoMessage])
   \<and> Operation_warn ''slow'' (example_impl\<lparr>getRequester := None\<rparr>, [])
       = (example_impl\<lparr>getRequester := None\<rparr>, [])"
proof -
  have gone: "getChannel (example_impl\<lparr>getChannel := None\<rparr>) = None"
    by simp
  have there: "getChannel example_impl = Some example_channel"
    and req: "getRequester (fst (example_impl, [])) = Some (Requester ''client'')"
    and noreq: "getRequester (fst (example_impl\<lparr>getRequester := None\<rparr>, [])) = None"
    by (simp_all add: example_impl_def)
  from expired_references_are_not_faults
    [where impl = "example_impl\<lparr>getChannel := None\<rparr>"] gone
  have a: "Operation_channelName (example_impl\<lparr>getChannel := None\<rparr>) = []"
    by blast
  from expired_references_are_not_faults
    [where impl = example_impl and chan = example_channel and s = "(example_impl, [])"
       and req = "Requester ''client''" and msg = "''slow''"] there req
  have b: "Operation_channelName example_impl = channelName example_channel"
    and c: "Operation_info ''slow'' (example_impl, [])
       = (fst (example_impl, []), snd (example_impl, []) @ [Ev_message (Requester ''client'') ''slow'' infoMessage])"
    by simp_all
  from expired_references_are_not_faults
    [where s = "(example_impl\<lparr>getRequester := None\<rparr>, [])" and msg = "''slow''"] noreq
  have d: "Operation_warn ''slow'' (example_impl\<lparr>getRequester := None\<rparr>, [])
       = (example_impl\<lparr>getRequester := None\<rparr>, [])"
    by blast
  from gone a b c d show ?thesis by (simp add: example_channel_def)
qed

text \<open>
  Claim C10.  The three-argument \<^verbatim>\<open>complete(value, changed)\<close> is the call
  \<^verbatim>\<open>impl->complete(Status(), &value)\<close>: the OK status whatever the arguments, the
  value, and nothing of \<^verbatim>\<open>changed\<close>; two calls that differ only in the change set
  are the same call.
\<close>

theorem complete_value_drops_changed:
  "Operation_complete_value cmpl val chg s = cmpl (Status STATUSTYPE_OK []) (Some val) s
   \<and> Operation_complete_value cmpl val chg s = Operation_complete_value cmpl val chg' s"
  by (simp add: Operation_complete_value_def Status_Ok_def)


section \<open>Properties of the attachment calls\<close>

lemma type_known_events:
  "type owner = None \<Longrightarrow>
     SharedPV_type_known t val vld put_req rpc_req owner =
       Some (owner\<lparr>type := Some t, current := Some val, valid := vld, getfields := []\<rparr>,
             [Ev_lock, Ev_unlock] @ put_connects put_req t (puts owner)
             @ rpc_connects rpc_req (rpcs owner)
             @ map (\<lambda>req. Ev_getDone req Status_Ok t) (getfields owner))"
  by (simp add: SharedPV_type_known_def)

lemma about_put_connects:
  "filter (about_put p) (put_connects put_req t ps) =
     (case put_req p of
        Some req \<Rightarrow> replicate (count_list ps p) (Ev_channelPutConnect req Status_Ok p t)
      | None \<Rightarrow> [])"
  by (induction ps) (auto simp: put_connects_def split: option.splits)

lemma about_put_rpc_connects: "filter (about_put p) (rpc_connects rpc_req ps) = []"
  by (induction ps) (auto simp: rpc_connects_def split: option.splits)

lemma about_put_getDone: "filter (about_put p) (map (\<lambda>req. Ev_getDone req sts t) rs) = []"
  by (induction rs) simp_all

lemma about_rpc_connects:
  "filter (about_rpc p) (rpc_connects rpc_req ps) =
     (case rpc_req p of
        Some req \<Rightarrow> replicate (count_list ps p) (Ev_channelRPCConnect req Status_Ok p)
      | None \<Rightarrow> [])"
  by (induction ps) (auto simp: rpc_connects_def split: option.splits)

lemma about_rpc_put_connects: "filter (about_rpc p) (put_connects put_req t ps) = []"
  by (induction ps) (auto simp: put_connects_def split: option.splits)

lemma about_rpc_getDone: "filter (about_rpc p) (map (\<lambda>req. Ev_getDone req sts t) rs) = []"
  by (induction rs) simp_all

lemma getDone_put_connects: "filter is_getDone (put_connects put_req t ps) = []"
  by (induction ps) (auto simp: put_connects_def split: option.splits)

lemma getDone_rpc_connects: "filter is_getDone (rpc_connects rpc_req ps) = []"
  by (induction ps) (auto simp: rpc_connects_def split: option.splits)

lemma getDone_getDone:
  "filter is_getDone (map (\<lambda>req. Ev_getDone req sts t) rs) = map (\<lambda>req. Ev_getDone req sts t) rs"
  by (induction rs) simp_all

lemma count_list_fresh: "p \<notin> set ps \<Longrightarrow> count_list ps p = 0"
  by (induction ps) auto


text \<open>
  Claim C5 as stated fails for \<^verbatim>\<open>getField\<close>: on a record whose type is known the
  requester is answered at once and is not put into the record's queue, so the call does
  not "always register" it.
\<close>

theorem getField_known_type_not_registered:
  "type opened_pv = Some [''value'']
   \<and> getfields (fst (SharedChannel_getField (Requester ''client'') [] opened_pv)) = []
   \<and> Requester ''client''
        \<notin> set (getfields (fst (SharedChannel_getField (Requester ''client'') [] opened_pv)))"
  by (simp add: SharedChannel_getField_def opened_pv_def fresh_pv_def)

lemma createChannelPut_result:
  "SharedChannel_createChannelPut ret chan req request owner =
     (\<lparr> put_this = ret, put_channel = chan_this chan, put_requester = Some req,
        put_pvRequest = request \<rparr>,
      owner\<lparr>puts := puts owner @ [ret]\<rparr>,
      [Ev_lock, Ev_unlock]
      @ (case type owner of Some t \<Rightarrow> [Ev_channelPutConnect req Status_Ok ret t] | None \<Rightarrow> []))"
  by (simp add: SharedChannel_createChannelPut_def Let_def split: option.splits)

lemma createChannelRPC_result:
  "SharedChannel_createChannelRPC ret chan req request owner =
     (\<lparr> rpc_this = ret, rpc_channel = chan_this chan, rpc_requester = Some req,
        rpc_pvRequest = request \<rparr>,
      owner\<lparr>rpcs := rpcs owner @ [ret]\<rparr>,
      [Ev_lock, Ev_unlock]
      @ (if type owner \<noteq> None then [Ev_channelRPCConnect req Status_Ok ret] else []))"
  by (simp add: SharedChannel_createChannelRPC_def Let_def)

lemma getField_result:
  "SharedChannel_getField req sub owner =
     (if type owner \<noteq> None then owner else owner\<lparr>getfields := getfields owner @ [req]\<rparr>,
      [Ev_lock, Ev_unlock]
      @ (case type owner of Some t \<Rightarrow> [Ev_getDone req Status_Ok t] | None \<Rightarrow> []))"
  by (auto simp: SharedChannel_getField_def)

lemma deferred_put:
  assumes "type owner = None" and "ret \<notin> set (puts owner)" and "put_req ret = Some req"
  shows "\<exists>owner' evs.
           SharedPV_type_known t val vld put_req rpc_req
             (fst (snd (SharedChannel_createChannelPut ret chan req request owner)))
             = Some (owner', evs)
         \<and> filter (about_put ret)
             (snd (snd (SharedChannel_createChannelPut ret chan req request owner)) @ evs)
             = [Ev_channelPutConnect req Status_Ok ret t]"
  using assms
  by (simp add: createChannelPut_result type_known_events about_put_connects
      about_put_rpc_connects about_put_getDone count_list_fresh)

lemma deferred_rpc:
  assumes "type owner = None" and "ret \<notin> set (rpcs owner)" and "rpc_req ret = Some req"
  shows "\<exists>owner' evs.
           SharedPV_type_known t val vld put_req rpc_req
             (fst (snd (SharedChannel_createChannelRPC ret chan req request owner)))
             = Some (owner', evs)
         \<and> filter (about_rpc ret)
             (snd (snd (SharedChannel_createChannelRPC ret chan req request owner)) @ evs)
             = [Ev_channelRPCConnect req Status_Ok ret]"
  using assms
  by (simp add: createChannelRPC_result type_known_events about_rpc_connects
      about_rpc_put_connects about_rpc_getDone count_list_fresh)

lemma deferred_getField:
  assumes "type owner = None"
  shows "\<exists>owner' evs.
           SharedPV_type_known t val vld put_req rpc_req
             (fst (SharedChannel_getField req sub owner)) = Some (owner', evs)
         \<and> getfields owner' = []
         \<and> filter is_getDone (snd (SharedChannel_getField req sub owner) @ evs)
             = map (\<lambda>r. Ev_getDone r Status_Ok t) (getfields owner @ [req])"
  using assms
  by (simp add: getField_result type_known_events getDone_put_connects
      getDone_rpc_connects getDone_getDone)

lemma known_type_stays:
  assumes "type owner = Some t'"
  shows "SharedPV_type_known t val vld put_req rpc_req
           (fst (snd (SharedChannel_createChannelPut ret chan req request owner))) = None"
    and "SharedPV_type_known t val vld put_req rpc_req
           (fst (snd (SharedChannel_createChannelRPC ret chan req request owner))) = None"
    and "SharedPV_type_known t val vld put_req rpc_req
           (fst (SharedChannel_getField req sub owner)) = None"
  using assms
  by (simp_all add: createChannelPut_result createChannelRPC_result getField_result
      SharedPV_type_known_def)

text \<open>
  Claim C5, amended.  \<^verbatim>\<open>createChannelPut\<close> and \<^verbatim>\<open>createChannelRPC\<close> always create the
  operation and append it to the record's list; \<^verbatim>\<open>getField\<close> appends its requester to
  the record's queue only when the type is not yet known.  Each of the three makes one
  callback to the requester, after the lock is released, if and only if the type is
  already known (with the type for \<^verbatim>\<open>getField\<close> and put; the RPC callback carries no
  type), and none otherwise.  If the type was not known, the transition that makes it
  known (as the spec describes it) then tells a put or RPC with a fresh address and a
  reachable requester exactly once, and makes one \<^verbatim>\<open>getDone\<close> call per queued entry,
  this one included, emptying the queue; if the type was known, that transition cannot
  happen any more, so the one callback made at the call stays the only one.
\<close>

theorem attach_and_notify:
  "put_this (fst (SharedChannel_createChannelPut ret chan req request owner)) = ret
   \<and> puts (fst (snd (SharedChannel_createChannelPut ret chan req request owner)))
       = puts owner @ [ret]
   \<and> snd (snd (SharedChannel_createChannelPut ret chan req request owner))
       = [Ev_lock, Ev_unlock]
         @ (case type owner of
              Some t' \<Rightarrow> [Ev_channelPutConnect req (Status STATUSTYPE_OK []) ret t']
            | None \<Rightarrow> [])
   \<and> rpc_this (fst (SharedChannel_createChannelRPC ret chan req request owner)) = ret
   \<and> rpcs (fst (snd (SharedChannel_createChannelRPC ret chan req request owner)))
       = rpcs owner @ [ret]
   \<and> snd (snd (SharedChannel_createChannelRPC ret chan req request owner))
       = [Ev_lock, Ev_unlock]
         @ (case type owner of
              Some t' \<Rightarrow> [Ev_channelRPCConnect req (Status STATUSTYPE_OK []) ret]
            | None \<Rightarrow> [])
   \<and> getfields (fst (SharedChannel_getField req sub owner))
       = (case type owner of Some t' \<Rightarrow> getfields owner | None \<Rightarrow> getfields owner @ [req])
   \<and> snd (SharedChannel_getField req sub owner)
       = [Ev_lock, Ev_unlock]
         @ (case type owner of
              Some t' \<Rightarrow> [Ev_getDone req (Status STATUSTYPE_OK []) t']
            | None \<Rightarrow> [])
   \<and> (type owner = None \<longrightarrow>
        (ret \<notin> set (puts owner) \<longrightarrow> put_req ret = Some req \<longrightarrow>
          (\<exists>owner' evs.
             SharedPV_type_known t val vld put_req rpc_req
               (fst (snd (SharedChannel_createChannelPut ret chan req request owner)))
               = Some (owner', evs)
           \<and> filter (about_put ret)
               (snd (snd (SharedChannel_createChannelPut ret chan req request owner)) @ evs)
               = [Ev_channelPutConnect req (Status STATUSTYPE_OK []) ret t]))
      \<and> (ret \<notin> set (rpcs owner) \<longrightarrow> rpc_req ret = Some req \<longrightarrow>
          (\<exists>owner' evs.
             SharedPV_type_known t val vld put_req rpc_req
               (fst (snd (SharedChannel_createChannelRPC ret chan req request owner)))
               = Some (owner', evs)
           \<and> filter (about_rpc ret)
               (snd (snd (SharedChannel_createChannelRPC ret chan req request owner)) @ evs)
               = [Ev_channelRPCConnect req (Status STATUSTYPE_OK []) ret]))
      \<and> (\<exists>owner' evs.
             SharedPV_type_known t val vld put_req rpc_req
               (fst (SharedChannel_getField req sub owner)) = Some (owner', evs)
           \<and> getfields owner' = []
           \<and> filter is_getDone (snd (SharedChannel_getField req sub owner) @ evs)
               = map (\<lambda>r. Ev_getDone r (Status STATUSTYPE_OK []) t) (getfields owner @ [req])))
   \<and> (type owner \<noteq> None \<longrightarrow>
        SharedPV_type_known t val vld put_req rpc_req
          (fst (snd (SharedChannel_createChannelPut ret chan req request owner))) = None
      \<and> SharedPV_type_known t val vld put_req rpc_req
          (fst (snd (SharedChannel_createChannelRPC ret chan req request owner))) = None
      \<and> SharedPV_type_known t val vld put_req rpc_req
          (fst (SharedChannel_getField req sub owner)) = None)"
proof -
  have sync: "put_this (fst (SharedChannel_createChannelPut ret chan req request owner)) = ret"
    "puts (fst (snd (SharedChannel_createChannelPut ret chan req request owner))) = puts owner @ [ret]"
    "snd (snd (SharedChannel_createChannelPut ret chan req request owner))
       = [Ev_lock, Ev_unlock]
         @ (case type owner of
              Some t' \<Rightarrow> [Ev_channelPutConnect req (Status STATUSTYPE_OK []) ret t']
            | None \<Rightarrow> [])"
    "rpc_this (fst (SharedChannel_createChannelRPC ret chan req request owner)) = ret"
    "rpcs (fst (snd (SharedChannel_createChannelRPC ret chan req request owner))) = rpcs owner @ [ret]"
    "snd (snd (SharedChannel_createChannelRPC ret chan req request owner))
       = [Ev_lock, Ev_unlock]
         @ (case type owner of
              Some t' \<Rightarrow> [Ev_channelRPCConnect req (Status STATUSTYPE_OK []) ret]
            | None \<Rightarrow> [])"
    "getfields (fst (SharedChannel_getField req sub owner))
       = (case type owner of Some t' \<Rightarrow> getfields owner | None \<Rightarrow> getfields owner @ [req])"
    "snd (SharedChannel_getField req sub owner)
       = [Ev_lock, Ev_unlock]
         @ (case type owner of
              Some t' \<Rightarrow> [Ev_getDone req (Status STATUSTYPE_OK []) t']
            | None \<Rightarrow> [])"
    by (simp_all add: createChannelPut_result createChannelRPC_result getField_result
        Status_Ok_def split: option.splits)
  note d1 = deferred_put [where t = t and val = val and vld = vld and put_req = put_req
      and rpc_req = rpc_req and ret = ret and chan = chan and req = req and request = request
      and owner = owner, unfolded Status_Ok_def]
  note d2 = deferred_rpc [where t = t and val = val and vld = vld and put_req = put_req
      and rpc_req = rpc_req and ret = ret and chan = chan and req = req and request = request
      and owner = owner, unfolded Status_Ok_def]
  note d3 = deferred_getField [where t = t and val = val and vld = vld and put_req = put_req
      and rpc_req = rpc_req and req = req and sub = sub and owner = owner, unfolded Status_Ok_def]
  have known: "type owner \<noteq> None \<longrightarrow>
        SharedPV_type_known t val vld put_req rpc_req
          (fst (snd (SharedChannel_createChannelPut ret chan req request owner))) = None
      \<and> SharedPV_type_known t val vld put_req rpc_req
          (fst (snd (SharedChannel_createChannelRPC ret chan req request owner))) = None
      \<and> SharedPV_type_known t val vld put_req rpc_req
          (fst (SharedChannel_getField req sub owner)) = None"
  proof (cases "type owner")
    case None
    then show ?thesis by simp
  next
    case (Some t')
    from known_type_stays [OF Some] show ?thesis by simp
  qed
  from sync d1 d2 d3 known show ?thesis by blast
qed


theorem attach_and_notify_witness:
  "type fresh_pv = None \<and> 9 \<notin> set (puts fresh_pv)
   \<and> snd (snd (SharedChannel_createChannelPut 9 example_channel (Requester ''client'') [] fresh_pv))
       = [Ev_lock, Ev_unlock]
   \<and> (\<exists>owner' evs.
         SharedPV_type_known [''value''] [(''value'', 42)] [0]
           [9 \<mapsto> Requester ''client''] Map.empty
           (fst (snd (SharedChannel_createChannelPut 9 example_channel (Requester ''client'') []
              fresh_pv))) = Some (owner', evs)
       \<and> filter (about_put 9)
           (snd (snd (SharedChannel_createChannelPut 9 example_channel (Requester ''client'') []
              fresh_pv)) @ evs)
           = [Ev_channelPutConnect (Requester ''client'') (Status STATUSTYPE_OK []) 9 [''value'']])
   \<and> type opened_pv \<noteq> None
   \<and> snd (snd (SharedChannel_createChannelPut 9 example_channel (Requester ''client'') [] opened_pv))
       = [Ev_lock, Ev_unlock,
          Ev_channelPutConnect (Requester ''client'') (Status STATUSTYPE_OK []) 9 [''value'']]
   \<and> SharedPV_type_known [''value''] [(''value'', 42)] [0]
         [9 \<mapsto> Requester ''client''] Map.empty
         (fst (snd (SharedChannel_createChannelPut 9 example_channel (Requester ''client'') []
            opened_pv))) = None"
proof -
  have f: "type fresh_pv = None" "9 \<notin> set (puts fresh_pv)"
    and r: "[9 \<mapsto> Requester ''client''] (9::nat) = Some (Requester ''client'')"
    and o: "type opened_pv \<noteq> None" "type opened_pv = Some [''value'']"
    by (simp_all add: fresh_pv_def opened_pv_def)
  note fresh = attach_and_notify [where owner = fresh_pv and ret = 9 and chan = example_channel
      and req = "Requester ''client''" and request = "[]" and t = "[''value'']"
      and val = "[(''value'', 42)]" and vld = "[0]"
      and put_req = "[9 \<mapsto> Requester ''client'']" and rpc_req = Map.empty]
  note opened = attach_and_notify [where owner = opened_pv and ret = 9 and chan = example_channel
      and req = "Requester ''client''" and request = "[]" and t = "[''value'']"
      and val = "[(''value'', 42)]" and vld = "[0]"
      and put_req = "[9 \<mapsto> Requester ''client'']" and rpc_req = Map.empty]
  from fresh f(1) have a: "snd (snd (SharedChannel_createChannelPut 9 example_channel
      (Requester ''client'') [] fresh_pv)) = [Ev_lock, Ev_unlock]"
    by simp
  from fresh f r have b: "\<exists>owner' evs.
         SharedPV_type_known [''value''] [(''value'', 42)] [0]
           [9 \<mapsto> Requester ''client''] Map.empty
           (fst (snd (SharedChannel_createChannelPut 9 example_channel (Requester ''client'') []
              fresh_pv))) = Some (owner', evs)
       \<and> filter (about_put 9)
           (snd (snd (SharedChannel_createChannelPut 9 example_channel (Requester ''client'') []
              fresh_pv)) @ evs)
           = [Ev_channelPutConnect (Requester ''client'') (Status STATUSTYPE_OK []) 9 [''value'']]"
    by blast
  from opened o(2) have c: "snd (snd (SharedChannel_createChannelPut 9 example_channel
      (Requester ''client'') [] opened_pv))
       = [Ev_lock, Ev_unlock,
          Ev_channelPutConnect (Requester ''client'') (Status STATUSTYPE_OK []) 9 [''value'']]"
    by simp
  from opened o(1) have d: "SharedPV_type_known [''value''] [(''value'', 42)] [0]
         [9 \<mapsto> Requester ''client''] Map.empty
         (fst (snd (SharedChannel_createChannelPut 9 example_channel (Requester ''client'') []
            opened_pv))) = None"
    by blast
  from f o(1) a b c d show ?thesis by blast
qed

lemma MonitorFIFO_posts_opened:
  "mon_opened m \<noteq> None \<Longrightarrow> mon_queue (MonitorFIFO_posts us m) = mon_queue m @ us"
  by (induction us arbitrary: m) (simp_all add: MonitorFIFO_post_def)

text \<open>
  Claim C6.  On a record whose type is known (and whose current value is set),
  \<^verbatim>\<open>createMonitor\<close> appends the queue to the record's monitor list and, between taking
  and releasing the lock, opens it with the record's type and posts one update, the
  record's current value with its validity mask; the call of \<^verbatim>\<open>notify\<close> follows the
  release.  The queue then holds exactly that update, and updates posted later, in any
  number, stand behind it.  On a record whose type is not known the queue is appended
  to the list and nothing else happens: no open, no post, no notify.  (The queue itself,
  \<^verbatim>\<open>MonitorFIFO\<close>, is modelled from the spec.)
\<close>

theorem createMonitor_snapshot:
  "(type owner = Some t \<longrightarrow> current owner = Some cur \<longrightarrow>
      (\<exists>m. SharedChannel_createMonitor ret chan req request owner =
              Some (m, owner\<lparr>monitors := monitors owner @ [ret]\<rparr>,
                    [Ev_lock, Ev_monitor_open ret t, Ev_monitor_post ret cur (valid owner),
                     Ev_unlock, Ev_monitor_notify ret])
          \<and> mon_this m = ret \<and> mon_opened m = Some t
          \<and> mon_queue m = [(cur, valid owner)]
          \<and> (\<forall>us. mon_queue (MonitorFIFO_posts us m) = (cur, valid owner) # us)))
   \<and> (type owner = None \<longrightarrow>
      (\<exists>m. SharedChannel_createMonitor ret chan req request owner =
              Some (m, owner\<lparr>monitors := monitors owner @ [ret]\<rparr>, [Ev_lock, Ev_unlock])
          \<and> mon_this m = ret \<and> mon_opened m = None \<and> mon_queue m = []))"
proof (intro conjI impI)
  assume ty: "type owner = Some t" and cu: "current owner = Some cur"
  let ?ret = "\<lparr> mon_this = ret, mon_channel = chan_this chan, mon_requester = req,
                 mon_pvRequest = request, mon_opened = None, mon_queue = [] \<rparr>"
  let ?m = "MonitorFIFO_post cur (valid owner) (MonitorFIFO_open t ?ret)"
  have call: "SharedChannel_createMonitor ret chan req request owner =
      Some (?m, owner\<lparr>monitors := monitors owner @ [ret]\<rparr>,
            [Ev_lock, Ev_monitor_open ret t, Ev_monitor_post ret cur (valid owner),
             Ev_unlock, Ev_monitor_notify ret])"
    using ty cu by (simp add: SharedChannel_createMonitor_def MonitorFIFO_post_def MonitorFIFO_open_def)
  have fields: "mon_this ?m = ret" "mon_opened ?m = Some t" "mon_queue ?m = [(cur, valid owner)]"
    by (simp_all add: MonitorFIFO_post_def MonitorFIFO_open_def)
  have later: "\<forall>us. mon_queue (MonitorFIFO_posts us ?m) = (cur, valid owner) # us"
    using fields by (simp add: MonitorFIFO_posts_opened)
  from call fields later
  show "\<exists>m. SharedChannel_createMonitor ret chan req request owner =
              Some (m, owner\<lparr>monitors := monitors owner @ [ret]\<rparr>,
                    [Ev_lock, Ev_monitor_open ret t, Ev_monitor_post ret cur (valid owner),
                     Ev_unlock, Ev_monitor_notify ret])
          \<and> mon_this m = ret \<and> mon_opened m = Some t
          \<and> mon_queue m = [(cur, valid owner)]
          \<and> (\<forall>us. mon_queue (MonitorFIFO_posts us m) = (cur, valid owner) # us)"
    by blast
next
  assume ty: "type owner = None"
  then show "\<exists>m. SharedChannel_createMonitor ret chan req request owner =
              Some (m, owner\<lparr>monitors := monitors owner @ [ret]\<rparr>, [Ev_lock, Ev_unlock])
          \<and> mon_this m = ret \<and> mon_opened m = None \<and> mon_queue m = []"
    by (simp add: SharedChannel_createMonitor_def)
qed

theorem createMonitor_snapshot_witness:
  "(\<exists>m. SharedChannel_createMonitor 5 example_channel (Requester ''client'') [] opened_pv =
          Some (m, opened_pv\<lparr>monitors := [5]\<rparr>,
                [Ev_lock, Ev_monitor_open 5 [''value''], Ev_monitor_post 5 [(''value'', 42)] [0],
                 Ev_unlock, Ev_monitor_notify 5])
        \<and> mon_queue m = [([(''value'', 42)], [0])]
        \<and> mon_queue (MonitorFIFO_posts [([(''value'', 43)], [0])] m)
            = [([(''value'', 42)], [0]), ([(''value'', 43)], [0])])
   \<and> (\<exists>m. SharedChannel_createMonitor 5 example_channel (Requester ''client'') [] fresh_pv =
          Some (m, fresh_pv\<lparr>monitors := [5]\<rparr>, [Ev_lock, Ev_unlock])
        \<and> mon_opened m = None \<and> mon_queue m = [])"
proof -
  have o: "type opened_pv = Some [''value'']" "current opened_pv = Some [(''value'', 42)]"
      "valid opened_pv = [0]" "monitors opened_pv = []"
    by (simp_all add: opened_pv_def fresh_pv_def)
  have f: "type fresh_pv = None" "monitors fresh_pv = []"
    by (simp_all add: fresh_pv_def)
  from createMonitor_snapshot
    [where owner = opened_pv and t = "[''value'']" and cur = "[(''value'', 42)]" and ret = 5
       and chan = example_channel and req = "Requester ''client''" and request = "[]"] o
  obtain m where m: "SharedChannel_createMonitor 5 example_channel (Requester ''client'') [] opened_pv =
          Some (m, opened_pv\<lparr>monitors := [5]\<rparr>,
                [Ev_lock, Ev_monitor_open 5 [''value''], Ev_monitor_post 5 [(''value'', 42)] [0],
                 Ev_unlock, Ev_monitor_notify 5])"
      "mon_queue m = [([(''value'', 42)], [0])]"
      "\<forall>us. mon_queue (MonitorFIFO_posts us m) = ([(''value'', 42)], [0]) # us"
    by auto
  from createMonitor_snapshot
    [where owner = fresh_pv and ret = 5
       and chan = example_channel and req = "Requester ''client''" and request = "[]"] f
  obtain m' where m': "SharedChannel_createMonitor 5 example_channel (Requester ''client'') [] fresh_pv =
          Some (m', fresh_pv\<lparr>monitors := [5]\<rparr>, [Ev_lock, Ev_unlock])"
      "mon_opened m' = None" "mon_queue m' = []"
    by auto
  from m(3) have later: "mon_queue (MonitorFIFO_posts [([(''value'', 43)], [0])] m)
            = [([(''value'', 42)], [0]), ([(''value'', 43)], [0])]"
    by blast
  from m(1,2) later m' show ?thesis by blast
qed


section \<open>Properties of concurrent opening and closing\<close>

lemma mutex_ok_iff:
  "mutex_ok s =
     (case sys_mutex s of
        None \<Rightarrow> (\<forall>u < length (sys_threads s). held (pc (sys_threads s ! u)) = 0)
      | Some (t, d) \<Rightarrow>
          t < length (sys_threads s) \<and> held (pc (sys_threads s ! t)) = d \<and> 0 < d
          \<and> (\<forall>u < length (sys_threads s). u \<noteq> t \<longrightarrow> held (pc (sys_threads s ! u)) = 0))"
  by (auto simp: mutex_ok_def list_all_iff all_set_conv_all_nth split: option.splits)

lemma mutex_ok_neutral:
  assumes "mutex_ok s" and "t < length (sys_threads s)"
    and "sys_mutex s' = sys_mutex s"
    and "sys_threads s' = (sys_threads s)[t := th']"
    and "held (pc th') = held (pc (sys_threads s ! t))"
  shows "mutex_ok s'"
proof (cases "sys_mutex s")
  case None
  with assms show ?thesis
    by (simp add: mutex_ok_iff nth_list_update)
next
  case (Some m)
  obtain u d where m: "m = (u, d)" by (cases m)
  with Some assms show ?thesis
    by (simp add: mutex_ok_iff nth_list_update)
qed

lemma mutex_ok_lock:
  assumes "mutex_ok s" and "t < length (sys_threads s)"
    and "mutex_lock t (sys_mutex s) = Some m"
    and "sys_mutex s' = m"
    and "sys_threads s' = (sys_threads s)[t := th']"
    and "held (pc th') = Suc (held (pc (sys_threads s ! t)))"
  shows "mutex_ok s'"
proof (cases "sys_mutex s")
  case None
  with assms show ?thesis
    by (auto simp: mutex_ok_iff nth_list_update)
next
  case (Some m0)
  obtain u d where m0: "m0 = (u, d)" by (cases m0)
  with Some assms(3) have ut: "u = t" and m: "m = Some (t, Suc d)"
    by (auto split: if_splits)
  with Some m0 assms show ?thesis
    by (simp add: mutex_ok_iff nth_list_update)
qed

lemma mutex_ok_unlock:
  assumes "mutex_ok s" and "t < length (sys_threads s)"
    and "sys_mutex s' = mutex_unlock (sys_mutex s)"
    and "sys_threads s' = (sys_threads s)[t := th']"
    and "held (pc (sys_threads s ! t)) = Suc (held (pc th'))"
  shows "mutex_ok s'"
proof (cases "sys_mutex s")
  case None
  with assms show ?thesis
    by (simp add: mutex_ok_iff)
next
  case (Some m0)
  obtain u d where m0: "m0 = (u, d)" by (cases m0)
  from Some m0 assms(1,2,5) have ut: "u = t"
    by (auto simp: mutex_ok_iff)
  from Some m0 ut assms(1) have d: "held (pc (sys_threads s ! t)) = d"
    by (simp add: mutex_ok_iff)
  show ?thesis
  proof (cases "d \<le> 1")
    case True
    with Some m0 ut d assms show ?thesis
      by (auto simp: mutex_ok_iff nth_list_update)
  next
    case False
    with Some m0 ut d assms show ?thesis
      by (auto simp: mutex_ok_iff nth_list_update)
  qed
qed

lemma goto_simps:
  "sys_threads (goto t th p s) = (sys_threads s)[t := th\<lparr>pc := p\<rparr>]"
  "sys_mutex (goto t th p s) = sys_mutex s"
  "sys_owner (goto t th p s) = sys_owner s"
  "sys_log (goto t th p s) = sys_log s"
  by (simp_all add: goto_def)

lemma set_channels_simps:
  "sys_threads (set_channels cs s) = sys_threads s"
  "sys_mutex (set_channels cs s) = sys_mutex s"
  "sys_log (set_channels cs s) = sys_log s"
  "channels (sys_owner (set_channels cs s)) = cs"
  "handler (sys_owner (set_channels cs s)) = handler (sys_owner s)"
  by (simp_all add: set_channels_def)

lemma step_Some:
  "step t s = Some s' \<Longrightarrow>
     t < length (sys_threads s) \<and> exec (pc (sys_threads s ! t)) t (sys_threads s ! t) s = Some s'"
  by (simp add: step_def split: if_splits)

lemma mutex_ok_step:
  assumes ok: "mutex_ok s" and st: "step t s = Some s'"
  shows "mutex_ok s'"
proof -
  let ?th = "sys_threads s ! t"
  from step_Some [OF st] have t: "t < length (sys_threads s)"
    and ex: "exec (pc ?th) t ?th s = Some s'" by simp_all
  show ?thesis
  proof (cases "pc ?th")
    case Ctor_lock
    with ex obtain m where "mutex_lock t (sys_mutex s) = Some m"
      and "s' = goto t ?th Ctor_test (s\<lparr>sys_mutex := m\<rparr>)"
      by (auto split: option.splits)
    with ok t Ctor_lock show ?thesis
      by (intro mutex_ok_lock [OF ok t, where m = m and th' = "?th\<lparr>pc := Ctor_test\<rparr>"])
         (simp_all add: goto_simps)
  next
    case Ctor_test
    with ex ok t show ?thesis
      by (intro mutex_ok_neutral [OF ok t,
            where th' = "?th\<lparr>pc := (if channels (sys_owner s) = [] then Ctor_capture else Ctor_push)\<rparr>"])
         (auto simp: goto_simps)
  next
    case Ctor_capture
    with ex ok t show ?thesis
      by (intro mutex_ok_neutral [OF ok t,
            where th' = "?th\<lparr>captured := handler (sys_owner s), pc := Ctor_push\<rparr>"])
         (auto simp: goto_simps)
  next
    case Ctor_push
    with ex ok t show ?thesis
      by (intro mutex_ok_neutral [OF ok t, where th' = "?th\<lparr>pc := Ctor_unlock\<rparr>"])
         (auto simp: goto_simps set_channels_simps)
  next
    case Ctor_unlock
    with ex ok t show ?thesis
      by (intro mutex_ok_unlock [OF ok t, where th' = "?th\<lparr>pc := Ctor_notify\<rparr>"])
         (auto simp: goto_simps)
  next
    case Ctor_notify
    with ex ok t show ?thesis
      by (intro mutex_ok_neutral [OF ok t, where th' = "?th\<lparr>pc := Returned\<rparr>"])
         (auto simp: goto_simps)
  next
    case Dtor_lock
    with ex obtain m where "mutex_lock t (sys_mutex s) = Some m"
      and "s' = goto t ?th Dtor_remove (s\<lparr>sys_mutex := m\<rparr>)"
      by (auto split: option.splits)
    with ok t Dtor_lock show ?thesis
      by (intro mutex_ok_lock [OF ok t, where m = m and th' = "?th\<lparr>pc := Dtor_remove\<rparr>"])
         (simp_all add: goto_simps)
  next
    case Dtor_remove
    with ex ok t show ?thesis
      by (intro mutex_ok_neutral [OF ok t, where th' = "?th\<lparr>pc := Dtor_test\<rparr>"])
         (auto simp: goto_simps set_channels_simps)
  next
    case Dtor_test
    with ex ok t show ?thesis
      by (intro mutex_ok_neutral [OF ok t,
            where th' = "?th\<lparr>pc := (if channels (sys_owner s) = [] then Dtor_relock else Dtor_unlock)\<rparr>"])
         (auto simp: goto_simps)
  next
    case Dtor_relock
    with ex obtain m where "mutex_lock t (sys_mutex s) = Some m"
      and "s' = goto t ?th Dtor_capture (s\<lparr>sys_mutex := m\<rparr>)"
      by (auto split: option.splits)
    with ok t Dtor_relock show ?thesis
      by (intro mutex_ok_lock [OF ok t, where m = m and th' = "?th\<lparr>pc := Dtor_capture\<rparr>"])
         (simp_all add: goto_simps)
  next
    case Dtor_capture
    with ex ok t show ?thesis
      by (intro mutex_ok_neutral [OF ok t,
            where th' = "?th\<lparr>captured := handler (sys_owner s), pc := Dtor_reunlock\<rparr>"])
         (auto simp: goto_simps)
  next
    case Dtor_reunlock
    with ex ok t show ?thesis
      by (intro mutex_ok_unlock [OF ok t, where th' = "?th\<lparr>pc := Dtor_unlock\<rparr>"])
         (auto simp: goto_simps)
  next
    case Dtor_unlock
    with ex ok t show ?thesis
      by (intro mutex_ok_unlock [OF ok t, where th' = "?th\<lparr>pc := Dtor_notify\<rparr>"])
         (auto simp: goto_simps)
  next
    case Dtor_notify
    with ex ok t show ?thesis
      by (intro mutex_ok_neutral [OF ok t, where th' = "?th\<lparr>pc := Returned\<rparr>"])
         (auto simp: goto_simps)
  next
    case Returned
    with ex show ?thesis by simp
  qed
qed

lemma step_frame:
  assumes "step t s = Some s'"
  shows "length (sys_threads s') = length (sys_threads s)"
    and "u \<noteq> t \<Longrightarrow> sys_threads s' ! u = sys_threads s ! u"
    and "handler (sys_owner s') = handler (sys_owner s)"
    and "self (sys_threads s' ! t) = self (sys_threads s ! t)"
proof -
  let ?th = "sys_threads s ! t"
  from step_Some [OF assms] have t: "t < length (sys_threads s)"
    and ex: "exec (pc ?th) t ?th s = Some s'" by simp_all
  show "length (sys_threads s') = length (sys_threads s)"
    using ex by (cases "pc ?th") (auto simp: goto_simps set_channels_simps split: option.splits)
  show "u \<noteq> t \<Longrightarrow> sys_threads s' ! u = sys_threads s ! u"
    using ex by (cases "pc ?th") (auto simp: goto_simps set_channels_simps split: option.splits)
  show "handler (sys_owner s') = handler (sys_owner s)"
    using ex by (cases "pc ?th") (auto simp: goto_simps set_channels_simps split: option.splits)
  show "self (sys_threads s' ! t) = self (sys_threads s ! t)"
    using ex t by (cases "pc ?th") (auto simp: goto_simps set_channels_simps split: option.splits)
qed

lemma step_log:
  assumes "step t s = Some s'"
  shows "\<exists>evs. sys_log s' = sys_log s @ map (Pair t) evs"
proof -
  let ?th = "sys_threads s ! t"
  from step_Some [OF assms] have ex: "exec (pc ?th) t ?th s = Some s'" by simp
  have "sys_log s' = sys_log s @ map (Pair t) [] \<or> (\<exists>e. sys_log s' = sys_log s @ map (Pair t) [e])"
    using ex by (cases "pc ?th") (auto simp: goto_simps set_channels_simps split: option.splits)
  then show ?thesis by blast
qed

lemma calls_of_other:
  assumes "step u s = Some s'" and "u \<noteq> t"
  shows "calls_of t s' = calls_of t s"
proof -
  from step_log [OF assms(1)] obtain evs where "sys_log s' = sys_log s @ map (Pair u) evs"
    by blast
  with assms(2) show ?thesis
    by (simp add: calls_of_def filter_map o_def)
qed

text \<open>While \<open>t\<close> is inside a guarded block, a step of another thread is a notification.\<close>

lemma holder_excludes:
  assumes "mutex_ok s" and "t < length (sys_threads s)" and "0 < held (pc (sys_threads s ! t))"
  shows "\<exists>d. sys_mutex s = Some (t, d)"
    and "u < length (sys_threads s) \<Longrightarrow> u \<noteq> t \<Longrightarrow> held (pc (sys_threads s ! u)) = 0"
proof -
  from assms obtain a d where m: "sys_mutex s = Some (a, d)"
    by (cases "sys_mutex s") (auto simp: mutex_ok_iff)
  with assms(1) have others: "\<forall>v < length (sys_threads s). v \<noteq> a \<longrightarrow> held (pc (sys_threads s ! v)) = 0"
    by (simp add: mutex_ok_iff)
  with assms(2,3) have at: "a = t" by force
  with m show "\<exists>d. sys_mutex s = Some (t, d)" by simp
  from others at show "u < length (sys_threads s) \<Longrightarrow> u \<noteq> t \<Longrightarrow> held (pc (sys_threads s ! u)) = 0"
    by simp
qed

lemma other_step_frame:
  assumes ok: "mutex_ok s" and t: "t < length (sys_threads s)"
    and h: "0 < held (pc (sys_threads s ! t))"
    and ut: "u \<noteq> t" and st: "step u s = Some s'"
  shows "sys_owner s' = sys_owner s"
proof -
  let ?th = "sys_threads s ! u"
  from step_Some [OF st] have u: "u < length (sys_threads s)"
    and ex: "exec (pc ?th) u ?th s = Some s'" by simp_all
  from holder_excludes [OF ok t h] u ut obtain d where m: "sys_mutex s = Some (t, d)"
    and z: "held (pc ?th) = 0" by blast
  show ?thesis
    using ex z m ut by (cases "pc ?th") (auto simp: goto_simps)
qed

lemma due_unheld:
  "held p = 0 \<Longrightarrow> due p th pv = due p th pv'"
  by (cases p) simp_all

lemma calls_of_append:
  "sys_log s' = sys_log s @ evs \<Longrightarrow>
     calls_of t s' = calls_of t s @ map snd (filter (\<lambda>e. fst e = t) evs)"
  by (simp add: calls_of_def)

lemma due_own_step:
  assumes st: "step t s = Some s'" and en: "entered t s"
  shows "calls_of t s' @ due_of t s' = calls_of t s @ due_of t s \<and> entered t s'"
proof -
  let ?th = "sys_threads s ! t"
  from step_Some [OF st] have t: "t < length (sys_threads s)"
    and ex: "exec (pc ?th) t ?th s = Some s'" by simp_all
  show ?thesis
    using ex t en
    by (cases "pc ?th")
       (auto simp: goto_simps set_channels_simps due_of_def entered_def calls_of_def
          first_call_def last_call_def split: option.splits if_splits)
qed

lemma due_other_step:
  assumes ok: "mutex_ok s" and t: "t < length (sys_threads s)"
    and st: "step u s = Some s'" and ut: "u \<noteq> t"
  shows "calls_of t s' @ due_of t s' = calls_of t s @ due_of t s \<and> (entered t s' = entered t s)"
proof -
  have th: "sys_threads s' ! t = sys_threads s ! t"
    using step_frame(2) [OF st] ut by simp
  have calls: "calls_of t s' = calls_of t s"
    using calls_of_other [OF st ut] .
  have "due_of t s' = due_of t s"
  proof (cases "held (pc (sys_threads s ! t)) = 0")
    case True
    then show ?thesis
      unfolding due_of_def th by (rule due_unheld)
  next
    case False
    then have "sys_owner s' = sys_owner s"
      using other_step_frame [OF ok t _ ut st] by simp
    then show ?thesis by (simp add: due_of_def th)
  qed
  with calls th show ?thesis by (simp add: entered_def)
qed

lemma due_step:
  assumes ok: "mutex_ok s" and t: "t < length (sys_threads s)" and en: "entered t s"
    and st: "step u s = Some s'"
  shows "calls_of t s' @ due_of t s' = calls_of t s @ due_of t s \<and> entered t s'"
proof (cases "u = t")
  case True
  with st en show ?thesis using due_own_step by simp
next
  case False
  with due_other_step [OF ok t st] en show ?thesis by simp
qed

lemma due_run:
  assumes "mutex_ok s" and "t < length (sys_threads s)" and "entered t s"
  shows "calls_of t (run sch s) @ due_of t (run sch s) = calls_of t s @ due_of t s
         \<and> mutex_ok (run sch s) \<and> length (sys_threads (run sch s)) = length (sys_threads s)"
  using assms
proof (induction sch arbitrary: s)
  case Nil
  then show ?case by simp
next
  case (Cons u sch)
  show ?case
  proof (cases "step u s")
    case None
    with Cons show ?thesis by simp
  next
    case (Some s')
    from due_step [OF Cons.prems(1,2,3) Some]
    have eq: "calls_of t s' @ due_of t s' = calls_of t s @ due_of t s" and en: "entered t s'"
      by simp_all
    have ok: "mutex_ok s'" using mutex_ok_step [OF Cons.prems(1) Some] .
    have len: "length (sys_threads s') = length (sys_threads s)"
      using step_frame(1) [OF Some] .
    from Cons.IH [OF ok _ en] Cons.prems(2) len eq Some show ?thesis by simp
  qed
qed

lemma mutex_ok_run: "mutex_ok s \<Longrightarrow> mutex_ok (run sch s)"
proof (induction sch arbitrary: s)
  case Nil
  then show ?case by simp
next
  case (Cons u sch)
  then show ?case by (cases "step u s") (simp_all add: mutex_ok_step)
qed

lemma mutex_ok_start:
  "list_all (\<lambda>th. held (pc th) = 0) ths \<Longrightarrow> mutex_ok (start pv ths)"
  by (simp add: mutex_ok_def start_def)

lemma sum_list_map_update:
  "t < length xs \<Longrightarrow>
     sum_list (map f (xs[t := x])) + f (xs ! t) = sum_list (map f xs) + (f x :: nat)"
proof (induction xs arbitrary: t)
  case Nil
  then show ?case by simp
next
  case (Cons a xs)
  then show ?case by (cases t) simp_all
qed

lemma sum_list_map_single:
  assumes "t < length xs" and "\<forall>u < length xs. u \<noteq> t \<longrightarrow> f (xs ! u) = (0::nat)"
  shows "sum_list (map f xs) = f (xs ! t)"
proof -
  have "sum_list (map f xs) = (\<Sum>i = 0 ..< length xs. f (xs ! i))"
    by (simp add: sum_list_sum_nth)
  also have "\<dots> = (\<Sum>i \<in> {t}. f (xs ! i))"
    using assms by (intro sum.mono_neutral_right) auto
  finally show ?thesis by simp
qed

lemma open_ok_grow:
  "open_ok h e p c \<Longrightarrow> held p = 0 \<Longrightarrow> open_ok h False p c"
  by (cases p) simp_all

lemma open_ok_unheld_empty:
  "open_ok h True p c \<Longrightarrow> held p = 0 \<Longrightarrow> open_due p c = 0"
  by (cases p) simp_all

lemma opens_inv_start:
  assumes "handler pv = Some h" and "channels pv = []"
    and "list_all (\<lambda>th. pc th = Ctor_lock \<and> captured th = None) ths"
  shows "opens_inv h (start pv ths)"
proof -
  have "list_all (\<lambda>th. held (pc th) = 0) ths"
    using assms(3) by (simp add: list_all_iff)
  then have "mutex_ok (start pv ths)" by (rule mutex_ok_start)
  moreover have "\<forall>u < length ths. open_ok h True (pc (ths ! u)) (captured (ths ! u))"
    using assms(3) by (simp add: list_all_iff)
  ultimately show ?thesis
    using assms(1,2) by (simp add: opens_inv_def start_def)
qed

lemma opens_inv_intro:
  assumes "mutex_ok s'" and "handler (sys_owner s') = Some h"
    and "t < length (sys_threads s)"
    and "sys_threads s' = (sys_threads s)[t := th']"
    and "open_ok h (channels (sys_owner s') = []) (pc th') (captured th')"
    and "\<forall>u < length (sys_threads s). u \<noteq> t \<longrightarrow>
           open_ok h (channels (sys_owner s') = []) (pc (sys_threads s ! u))
             (captured (sys_threads s ! u))"
    and "\<forall>e \<in> set (sys_log s'). snd e = Ev_onFirstConnect h"
    and "if channels (sys_owner s') = [] then sys_log s' = []
         else length (sys_log s') + sum_list (map thread_due ((sys_threads s)[t := th'])) = 1"
  shows "opens_inv h s'"
  using assms by (auto simp: opens_inv_def nth_list_update)

lemma opens_inv_step:
  assumes inv: "opens_inv h s" and st: "step t s = Some s'"
  shows "opens_inv h s'"
proof -
  let ?ths = "sys_threads s"
  let ?th = "?ths ! t"
  let ?e = "channels (sys_owner s) = []"
  from inv have ok: "mutex_ok s" and hd: "handler (sys_owner s) = Some h"
    and oks: "\<forall>u < length ?ths. open_ok h ?e (pc (?ths ! u)) (captured (?ths ! u))"
    and logs: "\<forall>e \<in> set (sys_log s). snd e = Ev_onFirstConnect h"
    and cnt: "if ?e then sys_log s = []
              else length (sys_log s) + sum_list (map thread_due ?ths) = 1"
    by (simp_all add: opens_inv_def)
  from step_Some [OF st] have t: "t < length ?ths"
    and ex: "exec (pc ?th) t ?th s = Some s'" by simp_all
  have ok': "mutex_ok s'" using mutex_ok_step [OF ok st] .
  have hd': "handler (sys_owner s') = Some h" using step_frame(3) [OF st] hd by simp
  from oks t have okt: "open_ok h ?e (pc ?th) (captured ?th)" by simp
  have others: "\<forall>u < length ?ths. u \<noteq> t \<longrightarrow> open_ok h ?e (pc (?ths ! u)) (captured (?ths ! u))"
    using oks by simp
  have upd: "sum_list (map thread_due (?ths[t := x])) + thread_due ?th
               = sum_list (map thread_due ?ths) + thread_due x" for x
    using sum_list_map_update [OF t] .
  show ?thesis
  proof (cases "pc ?th")
    case Ctor_lock
    with ex obtain m where s': "s' = goto t ?th Ctor_test (s\<lparr>sys_mutex := m\<rparr>)"
      by (auto split: option.splits)
    let ?th' = "?th\<lparr>pc := Ctor_test\<rparr>"
    have due: "thread_due ?th' = thread_due ?th"
      using Ctor_lock by (simp add: thread_due_def)
    show ?thesis
    proof (rule opens_inv_intro [OF ok' hd' t, where th' = ?th'])
      show "sys_threads s' = ?ths[t := ?th']" by (simp add: s' goto_simps)
      show "open_ok h (channels (sys_owner s') = []) (pc ?th') (captured ?th')"
        using okt Ctor_lock by simp
      show "\<forall>u < length ?ths. u \<noteq> t \<longrightarrow>
           open_ok h (channels (sys_owner s') = []) (pc (?ths ! u)) (captured (?ths ! u))"
        using others by (simp add: s' goto_simps)
      show "\<forall>e \<in> set (sys_log s'). snd e = Ev_onFirstConnect h"
        using logs by (simp add: s' goto_simps)
      show "if channels (sys_owner s') = [] then sys_log s' = []
         else length (sys_log s') + sum_list (map thread_due (?ths[t := ?th'])) = 1"
        using cnt upd [of ?th'] due by (simp add: s' goto_simps)
    qed
  next
    case Ctor_test
    let ?th' = "?th\<lparr>pc := (if ?e then Ctor_capture else Ctor_push)\<rparr>"
    from ex Ctor_test have s': "s' = goto t ?th (if ?e then Ctor_capture else Ctor_push) s"
      by simp
    from okt Ctor_test have c: "captured ?th = None" by simp
    have due: "\<not> ?e \<Longrightarrow> thread_due ?th' = thread_due ?th"
      using Ctor_test c by (simp add: thread_due_def)
    show ?thesis
    proof (rule opens_inv_intro [OF ok' hd' t, where th' = ?th'])
      show "sys_threads s' = ?ths[t := ?th']" by (simp add: s' goto_simps)
      show "open_ok h (channels (sys_owner s') = []) (pc ?th') (captured ?th')"
        using c by (simp add: s' goto_simps)
      show "\<forall>u < length ?ths. u \<noteq> t \<longrightarrow>
           open_ok h (channels (sys_owner s') = []) (pc (?ths ! u)) (captured (?ths ! u))"
        using others by (simp add: s' goto_simps)
      show "\<forall>e \<in> set (sys_log s'). snd e = Ev_onFirstConnect h"
        using logs by (simp add: s' goto_simps)
      show "if channels (sys_owner s') = [] then sys_log s' = []
         else length (sys_log s') + sum_list (map thread_due (?ths[t := ?th'])) = 1"
      proof (cases ?e)
        case True
        with cnt show ?thesis by (simp add: s' goto_simps)
      next
        case False
        with cnt upd [of ?th'] due show ?thesis by (simp add: s' goto_simps)
      qed
    qed
  next
    case Ctor_capture
    let ?th' = "?th\<lparr>captured := handler (sys_owner s), pc := Ctor_push\<rparr>"
    from ex Ctor_capture have s': "s' = goto t (?th\<lparr>captured := handler (sys_owner s)\<rparr>) Ctor_push s"
      by simp
    from okt Ctor_capture have e: ?e by simp
    show ?thesis
    proof (rule opens_inv_intro [OF ok' hd' t, where th' = ?th'])
      show "sys_threads s' = ?ths[t := ?th']" by (simp add: s' goto_simps)
      show "open_ok h (channels (sys_owner s') = []) (pc ?th') (captured ?th')"
        using hd by (simp add: s' goto_simps)
      show "\<forall>u < length ?ths. u \<noteq> t \<longrightarrow>
           open_ok h (channels (sys_owner s') = []) (pc (?ths ! u)) (captured (?ths ! u))"
        using others by (simp add: s' goto_simps)
      show "\<forall>e \<in> set (sys_log s'). snd e = Ev_onFirstConnect h"
        using logs by (simp add: s' goto_simps)
      show "if channels (sys_owner s') = [] then sys_log s' = []
         else length (sys_log s') + sum_list (map thread_due (?ths[t := ?th'])) = 1"
        using cnt e by (simp add: s' goto_simps)
    qed
  next
    case Ctor_push
    let ?th' = "?th\<lparr>pc := Ctor_unlock\<rparr>"
    from ex Ctor_push have s': "s' = goto t ?th Ctor_unlock
        (set_channels (channels (sys_owner s) @ [self ?th]) s)"
      by simp
    have ne: "channels (sys_owner s') \<noteq> []"
      by (simp add: s' goto_simps set_channels_simps)
    have hp: "0 < held (pc ?th)" using Ctor_push by simp
    have unheld: "\<forall>u < length ?ths. u \<noteq> t \<longrightarrow> held (pc (?ths ! u)) = 0"
      using holder_excludes(2) [OF ok t hp] by blast
    have due: "thread_due ?th' = thread_due ?th"
      using Ctor_push by (simp add: thread_due_def)
    have total: "length (sys_log s) + sum_list (map thread_due ?ths) = 1"
    proof (cases ?e)
      case False
      with cnt show ?thesis by simp
    next
      case True
      with cnt have l: "sys_log s = []" by simp
      from okt Ctor_push True have "captured ?th = Some h" by simp
      with Ctor_push have d1: "thread_due ?th = 1" by (simp add: thread_due_def)
      have "\<forall>u < length ?ths. u \<noteq> t \<longrightarrow> thread_due (?ths ! u) = 0"
      proof (intro allI impI)
        fix u assume u: "u < length ?ths" "u \<noteq> t"
        with others True have "open_ok h True (pc (?ths ! u)) (captured (?ths ! u))" by simp
        moreover from unheld u have "held (pc (?ths ! u)) = 0" by simp
        ultimately show "thread_due (?ths ! u) = 0"
          unfolding thread_due_def by (rule open_ok_unheld_empty)
      qed
      with sum_list_map_single [OF t, of thread_due] have "sum_list (map thread_due ?ths) = thread_due ?th"
        by simp
      with l d1 show ?thesis by simp
    qed
    show ?thesis
    proof (rule opens_inv_intro [OF ok' hd' t, where th' = ?th'])
      show "sys_threads s' = ?ths[t := ?th']" by (simp add: s' goto_simps set_channels_simps)
      show "open_ok h (channels (sys_owner s') = []) (pc ?th') (captured ?th')"
        using okt Ctor_push ne by auto
      show "\<forall>u < length ?ths. u \<noteq> t \<longrightarrow>
           open_ok h (channels (sys_owner s') = []) (pc (?ths ! u)) (captured (?ths ! u))"
      proof (intro allI impI)
        fix u assume u: "u < length ?ths" "u \<noteq> t"
        with others have "open_ok h ?e (pc (?ths ! u)) (captured (?ths ! u))" by simp
        moreover from unheld u have "held (pc (?ths ! u)) = 0" by simp
        ultimately have "open_ok h False (pc (?ths ! u)) (captured (?ths ! u))"
          by (rule open_ok_grow)
        with ne show "open_ok h (channels (sys_owner s') = []) (pc (?ths ! u)) (captured (?ths ! u))"
          by simp
      qed
      show "\<forall>e \<in> set (sys_log s'). snd e = Ev_onFirstConnect h"
        using logs by (simp add: s' goto_simps set_channels_simps)
      show "if channels (sys_owner s') = [] then sys_log s' = []
         else length (sys_log s') + sum_list (map thread_due (?ths[t := ?th'])) = 1"
        using ne total upd [of ?th'] due by (simp add: s' goto_simps set_channels_simps)
    qed
  next
    case Ctor_unlock
    let ?th' = "?th\<lparr>pc := Ctor_notify\<rparr>"
    from ex Ctor_unlock have s': "s' = goto t ?th Ctor_notify
        (s\<lparr>sys_mutex := mutex_unlock (sys_mutex s)\<rparr>)"
      by simp
    have due: "thread_due ?th' = thread_due ?th"
      using Ctor_unlock by (simp add: thread_due_def)
    show ?thesis
    proof (rule opens_inv_intro [OF ok' hd' t, where th' = ?th'])
      show "sys_threads s' = ?ths[t := ?th']" by (simp add: s' goto_simps)
      show "open_ok h (channels (sys_owner s') = []) (pc ?th') (captured ?th')"
        using okt Ctor_unlock by (simp add: s' goto_simps)
      show "\<forall>u < length ?ths. u \<noteq> t \<longrightarrow>
           open_ok h (channels (sys_owner s') = []) (pc (?ths ! u)) (captured (?ths ! u))"
        using others by (simp add: s' goto_simps)
      show "\<forall>e \<in> set (sys_log s'). snd e = Ev_onFirstConnect h"
        using logs by (simp add: s' goto_simps)
      show "if channels (sys_owner s') = [] then sys_log s' = []
         else length (sys_log s') + sum_list (map thread_due (?ths[t := ?th'])) = 1"
        using cnt upd [of ?th'] due by (simp add: s' goto_simps)
    qed
  next
    case Ctor_notify
    let ?th' = "?th\<lparr>pc := Returned\<rparr>"
    let ?new = "case captured ?th of Some h' \<Rightarrow> [(t, Ev_onFirstConnect h')] | None \<Rightarrow> []"
    from ex Ctor_notify have s': "s' = goto t ?th Returned (s\<lparr>sys_log := sys_log s @ ?new\<rparr>)"
      by simp
    from okt Ctor_notify have ne: "\<not> ?e" and c: "captured ?th = None \<or> captured ?th = Some h"
      by simp_all
    from cnt ne have total: "length (sys_log s) + sum_list (map thread_due ?ths) = 1" by simp
    have due': "thread_due ?th' = 0" by (simp add: thread_due_def)
    have due: "thread_due ?th = length ?new"
      using Ctor_notify c by (auto simp: thread_due_def)
    show ?thesis
    proof (rule opens_inv_intro [OF ok' hd' t, where th' = ?th'])
      show "sys_threads s' = ?ths[t := ?th']" by (simp add: s' goto_simps)
      show "open_ok h (channels (sys_owner s') = []) (pc ?th') (captured ?th')"
        using ne by (simp add: s' goto_simps)
      show "\<forall>u < length ?ths. u \<noteq> t \<longrightarrow>
           open_ok h (channels (sys_owner s') = []) (pc (?ths ! u)) (captured (?ths ! u))"
        using others by (simp add: s' goto_simps)
      show "\<forall>e \<in> set (sys_log s'). snd e = Ev_onFirstConnect h"
        using logs c by (auto simp: s' goto_simps)
      show "if channels (sys_owner s') = [] then sys_log s' = []
         else length (sys_log s') + sum_list (map thread_due (?ths[t := ?th'])) = 1"
        using ne total upd [of ?th'] due due' by (simp add: s' goto_simps)
    qed
  next
    case Returned
    with ex show ?thesis by simp
  qed (use okt in simp_all)
qed

lemma opens_inv_run: "opens_inv h s \<Longrightarrow> opens_inv h (run sch s)"
proof (induction sch arbitrary: s)
  case Nil
  then show ?case by simp
next
  case (Cons u sch)
  then show ?case by (cases "step u s") (simp_all add: opens_inv_step)
qed

lemma run_length: "length (sys_threads (run sch s)) = length (sys_threads s)"
proof (induction sch arbitrary: s)
  case Nil
  show ?case by simp
next
  case (Cons u sch)
  then show ?case by (cases "step u s") (simp_all add: step_frame(1))
qed

lemma opens_inv_final:
  assumes inv: "opens_inv h s" and ret: "all_returned s" and ne: "sys_threads s \<noteq> []"
  shows "map snd (sys_log s) = [Ev_onFirstConnect h]"
proof -
  let ?ths = "sys_threads s"
  from ret have allret: "\<forall>th \<in> set ?ths. pc th = Returned"
    by (simp add: all_returned_def list_all_iff)
  from ne have z: "0 < length ?ths" by simp
  with allret have "pc (?ths ! 0) = Returned" by simp
  moreover from inv z have "open_ok h (channels (sys_owner s) = []) (pc (?ths ! 0)) (captured (?ths ! 0))"
    by (simp add: opens_inv_def)
  ultimately have nonempty: "channels (sys_owner s) \<noteq> []" by simp
  with inv have total: "length (sys_log s) + sum_list (map thread_due ?ths) = 1"
    by (simp add: opens_inv_def)
  have "\<forall>th \<in> set ?ths. thread_due th = 0"
    using allret by (simp add: thread_due_def)
  then have "sum_list (map thread_due ?ths) = 0" by simp
  with total have "length (sys_log s) = 1" by simp
  then obtain e where e: "sys_log s = [e]"
    by (cases "sys_log s") simp_all
  with inv have "snd e = Ev_onFirstConnect h" by (simp add: opens_inv_def)
  with e show ?thesis by simp
qed

lemma mutate_under_lock:
  assumes ok: "mutex_ok s" and st: "step t s = Some s'"
    and ch: "channels (sys_owner s') \<noteq> channels (sys_owner s)"
  shows "\<exists>d. sys_mutex s = Some (t, d)"
proof -
  let ?th = "sys_threads s ! t"
  from step_Some [OF st] have t: "t < length (sys_threads s)"
    and ex: "exec (pc ?th) t ?th s = Some s'" by simp_all
  have "0 < held (pc ?th)"
    using ex ch by (cases "pc ?th") (auto simp: goto_simps split: option.splits)
  from holder_excludes(1) [OF ok t this] show ?thesis .
qed

lemma notify_unlocked:
  assumes ok: "mutex_ok s" and st: "step t s = Some s'"
    and lg: "sys_log s' \<noteq> sys_log s"
  shows "\<forall>d. sys_mutex s \<noteq> Some (t, d)"
proof -
  let ?th = "sys_threads s ! t"
  from step_Some [OF st] have t: "t < length (sys_threads s)"
    and ex: "exec (pc ?th) t ?th s = Some s'" by simp_all
  have "held (pc ?th) = 0"
    using ex lg by (cases "pc ?th") (auto simp: goto_simps set_channels_simps split: option.splits)
  with ok show ?thesis by (auto simp: mutex_ok_iff)
qed

lemma step_works:
  assumes st: "step t s = Some s'"
  shows "work_left s' < work_left s"
proof -
  let ?th = "sys_threads s ! t"
  from step_Some [OF st] have t: "t < length (sys_threads s)"
    and ex: "exec (pc ?th) t ?th s = Some s'" by simp_all
  have "\<exists>th'. sys_threads s' = (sys_threads s)[t := th'] \<and> remaining (pc th') < remaining (pc ?th)"
    using ex
    by (cases "pc ?th") (auto simp: goto_simps set_channels_simps split: option.splits)
  then obtain th' where upd: "sys_threads s' = (sys_threads s)[t := th']"
    and less: "remaining (pc th') < remaining (pc ?th)" by blast
  from sum_list_map_update [OF t, of "\<lambda>th. remaining (pc th)" th']
  have "work_left s' + remaining (pc ?th) = work_left s + remaining (pc th')"
    by (simp add: work_left_def upd)
  with less show ?thesis by simp
qed

lemma can_move:
  assumes ok: "mutex_ok s" and busy: "\<not> all_returned s"
  shows "\<exists>t s'. step t s = Some s'"
proof (cases "sys_mutex s")
  case None
  from busy obtain t where t: "t < length (sys_threads s)"
    and nr: "pc (sys_threads s ! t) \<noteq> Returned"
    by (auto simp: all_returned_def list_all_iff in_set_conv_nth)
  from ok None t have "held (pc (sys_threads s ! t)) = 0"
    by (simp add: mutex_ok_iff)
  with nr None t have "\<exists>s'. step t s = Some s'"
    by (cases "pc (sys_threads s ! t)") (simp_all add: step_def)
  then show ?thesis by blast
next
  case (Some m)
  obtain t d where m: "m = (t, d)" by (cases m)
  from ok Some m have t: "t < length (sys_threads s)"
    and h: "0 < held (pc (sys_threads s ! t))"
    by (simp_all add: mutex_ok_iff)
  with Some m have "\<exists>s'. step t s = Some s'"
    by (cases "pc (sys_threads s ! t)") (simp_all add: step_def)
  then show ?thesis by blast
qed

lemma can_finish:
  "mutex_ok s \<Longrightarrow> \<exists>sch. all_returned (run sch s)"
proof (induction "work_left s" arbitrary: s rule: less_induct)
  case less
  show ?case
  proof (cases "all_returned s")
    case True
    then have "all_returned (run [] s)" by simp
    then show ?thesis by blast
  next
    case False
    from can_move [OF less.prems False] obtain t s' where st: "step t s = Some s'" by blast
    from less.hyps [OF step_works [OF st] mutex_ok_step [OF less.prems st]]
    obtain sch where "all_returned (run sch s')" by blast
    with st have "all_returned (run (t # sch) s)" by simp
    then show ?thesis by blast
  qed
qed

lemma run_append: "run (a @ b) s = run b (run a s)"
  by (induction a arbitrary: s) simp_all

lemma opens_inv_at_most_one:
  assumes "opens_inv h s"
  shows "length (sys_log s) \<le> 1"
  using assms by (auto simp: opens_inv_def split: if_splits)

text \<open>A thread running alone does what the method does.\<close>

lemma ctor_alone:
  "sys_owner (run [0, 0, 0, 0, 0, 0] (start owner [spawn Ctor_lock addr]))
     = fst (snd (SharedChannel_ctor addr req prov name owner))
   \<and> map snd (sys_log (run [0, 0, 0, 0, 0, 0] (start owner [spawn Ctor_lock addr])))
     = filter is_first_connect (snd (snd (SharedChannel_ctor addr req prov name owner)))
   \<and> all_returned (run [0, 0, 0, 0, 0, 0] (start owner [spawn Ctor_lock addr]))
   \<and> sys_mutex (run [0, 0, 0, 0, 0, 0] (start owner [spawn Ctor_lock addr])) = None"
  by (cases "channels owner = []"; cases "handler owner")
     (simp_all add: SharedChannel_ctor_def all_returned_def start_def spawn_def step_def
        goto_def set_channels_def)

lemma dtor_alone:
  "sys_owner (run [0, 0, 0, 0, 0, 0, 0, 0] (start owner [spawn Dtor_lock (chan_this chan)]))
     = fst (SharedChannel_dtor chan owner)
   \<and> map snd (sys_log (run [0, 0, 0, 0, 0, 0, 0, 0] (start owner [spawn Dtor_lock (chan_this chan)])))
     = filter is_last_disconnect (snd (SharedChannel_dtor chan owner))
   \<and> all_returned (run [0, 0, 0, 0, 0, 0, 0, 0] (start owner [spawn Dtor_lock (chan_this chan)]))
   \<and> sys_mutex (run [0, 0, 0, 0, 0, 0, 0, 0] (start owner [spawn Dtor_lock (chan_this chan)])) = None"
  by (cases "removeAll (chan_this chan) (channels owner) = []"; cases "handler owner")
     (simp_all add: SharedChannel_dtor_def all_returned_def start_def spawn_def step_def
        goto_def set_channels_def)

lemma dtor_outcome:
  assumes ok: "mutex_ok s" and t: "t < length (sys_threads s)"
    and at: "pc (sys_threads s ! t) = Dtor_remove"
    and cap: "captured (sys_threads s ! t) = None"
    and fin: "pc (sys_threads (run sch s) ! t) = Returned"
  shows "calls_of t (run sch s) =
           calls_of t s
           @ (if removeAll (self (sys_threads s ! t)) (channels (sys_owner s)) = []
              then (case handler (sys_owner s) of Some h \<Rightarrow> [Ev_onLastDisconnect h] | None \<Rightarrow> [])
              else [])"
proof -
  from at have en: "entered t s" by (simp add: entered_def)
  from due_run [OF ok t en, of sch]
  have "calls_of t (run sch s) @ due_of t (run sch s) = calls_of t s @ due_of t s"
    by simp
  moreover from fin have "due_of t (run sch s) = []"
    by (simp add: due_of_def)
  moreover from at cap have "due_of t s =
      (if removeAll (self (sys_threads s ! t)) (channels (sys_owner s)) = []
       then (case handler (sys_owner s) of Some h \<Rightarrow> [Ev_onLastDisconnect h] | None \<Rightarrow> [])
       else [])"
    by (simp add: due_of_def last_call_def)
  ultimately show ?thesis by simp
qed

text \<open>
  Claim C2 as stated fails on a record without a lifecycle handler: the channel list is
  empty before the append, yet no first-attach notification is made, by the
  constructor run alone or as a thread.
\<close>

theorem ctor_without_handler_is_silent:
  "channels (fresh_pv\<lparr>handler := None\<rparr>) = []
   \<and> snd (snd (SharedChannel_ctor 1 (Requester ''client'') (ChannelProvider 0) ''pv:counter''
        (fresh_pv\<lparr>handler := None\<rparr>))) = [Ev_lock, Ev_unlock]
   \<and> all_returned (run [0, 0, 0, 0, 0, 0] (start (fresh_pv\<lparr>handler := None\<rparr>) [spawn Ctor_lock 1]))
   \<and> sys_log (run [0, 0, 0, 0, 0, 0] (start (fresh_pv\<lparr>handler := None\<rparr>) [spawn Ctor_lock 1])) = []"
  by (simp add: SharedChannel_ctor_def all_returned_def start_def spawn_def fresh_pv_def
      step_def goto_def set_channels_def)

text \<open>
  Claim C2, amended.  The constructor appends the channel to the record's list, and
  makes the handler's \<^verbatim>\<open>onFirstConnect\<close> call, after the lock is released, if and only
  if the list was empty before the append and the record has a handler.  In every
  state that threads constructing and destroying channels can reach, a statement that
  changes the channel list is executed by the thread holding the mutex, and a handler
  call by a thread not holding it.  When threads construct channels on a record that
  has a handler and an empty channel list, then under every schedule: at no moment
  has more than one call been made; the schedule can always be continued until all
  threads have returned; and once all of one or more threads have returned, exactly
  one \<^verbatim>\<open>onFirstConnect\<close> call has been made.
\<close>

theorem first_connect_once:
  "channels (fst (snd (SharedChannel_ctor addr req prov name owner))) = channels owner @ [addr]
   \<and> snd (snd (SharedChannel_ctor addr req prov name owner))
       = (if debugLvl owner > 5 then [Ev_errlogPrintf (getRequesterName req) name addr] else [])
         @ [Ev_lock, Ev_unlock]
         @ (if channels owner = []
            then (case handler owner of Some h' \<Rightarrow> [Ev_onFirstConnect h'] | None \<Rightarrow> [])
            else [])
   \<and> (list_all (\<lambda>th. held (pc th) = 0) ths \<longrightarrow> s = run pre (start pv ths) \<longrightarrow>
        step t s = Some s' \<longrightarrow>
          (channels (sys_owner s') \<noteq> channels (sys_owner s) \<longrightarrow> (\<exists>d. sys_mutex s = Some (t, d)))
        \<and> (sys_log s' \<noteq> sys_log s \<longrightarrow> (\<forall>d. sys_mutex s \<noteq> Some (t, d))))
   \<and> (handler pv = Some h \<longrightarrow> channels pv = [] \<longrightarrow>
        list_all (\<lambda>th. pc th = Ctor_lock \<and> captured th = None) ths \<longrightarrow>
          length (sys_log (run sch (start pv ths))) \<le> 1
        \<and> (\<exists>more. all_returned (run (sch @ more) (start pv ths)))
        \<and> (ths \<noteq> [] \<longrightarrow> all_returned (run sch (start pv ths)) \<longrightarrow>
             map snd (sys_log (run sch (start pv ths))) = [Ev_onFirstConnect h]))"
proof -
  have seq: "channels (fst (snd (SharedChannel_ctor addr req prov name owner))) = channels owner @ [addr]"
    "snd (snd (SharedChannel_ctor addr req prov name owner))
       = (if debugLvl owner > 5 then [Ev_errlogPrintf (getRequesterName req) name addr] else [])
         @ [Ev_lock, Ev_unlock]
         @ (if channels owner = []
            then (case handler owner of Some h' \<Rightarrow> [Ev_onFirstConnect h'] | None \<Rightarrow> [])
            else [])"
    by (simp_all add: SharedChannel_ctor_def Let_def)
  have locked: "(channels (sys_owner s') \<noteq> channels (sys_owner s) \<longrightarrow> (\<exists>d. sys_mutex s = Some (t, d)))
        \<and> (sys_log s' \<noteq> sys_log s \<longrightarrow> (\<forall>d. sys_mutex s \<noteq> Some (t, d)))"
    if "list_all (\<lambda>th. held (pc th) = 0) ths" and "s = run pre (start pv ths)"
      and st: "step t s = Some s'"
  proof -
    from that(1,2) have ok: "mutex_ok s"
      by (simp add: mutex_ok_run mutex_ok_start)
    from mutate_under_lock [OF ok st] notify_unlocked [OF ok st] show ?thesis by blast
  qed
  have once: "length (sys_log (run sch (start pv ths))) \<le> 1
        \<and> (\<exists>more. all_returned (run (sch @ more) (start pv ths)))
        \<and> (ths \<noteq> [] \<longrightarrow> all_returned (run sch (start pv ths)) \<longrightarrow>
             map snd (sys_log (run sch (start pv ths))) = [Ev_onFirstConnect h])"
    if "handler pv = Some h" and "channels pv = []"
      and "list_all (\<lambda>th. pc th = Ctor_lock \<and> captured th = None) ths"
  proof -
    from that have "opens_inv h (start pv ths)" by (rule opens_inv_start)
    then have inv: "opens_inv h (run sch (start pv ths))" by (rule opens_inv_run)
    then have most: "length (sys_log (run sch (start pv ths))) \<le> 1"
      by (rule opens_inv_at_most_one)
    from inv have "mutex_ok (run sch (start pv ths))" by (simp add: opens_inv_def)
    from can_finish [OF this] have fin: "\<exists>more. all_returned (run (sch @ more) (start pv ths))"
      by (simp add: run_append)
    have one: "map snd (sys_log (run sch (start pv ths))) = [Ev_onFirstConnect h]"
      if ne: "ths \<noteq> []" and ret: "all_returned (run sch (start pv ths))"
    proof -
      have "length (sys_threads (run sch (start pv ths))) = length ths"
        by (simp add: run_length start_def)
      with ne have "sys_threads (run sch (start pv ths)) \<noteq> []" by auto
      from opens_inv_final [OF inv ret this] show ?thesis .
    qed
    from most fin one show ?thesis by blast
  qed
  from seq locked once show ?thesis by blast
qed

theorem first_connect_once_witness:
  "all_returned (run [0, 1, 0, 0, 1, 0, 0, 0, 1, 1, 1, 1, 1]
      (start fresh_pv [spawn Ctor_lock 1, spawn Ctor_lock 2]))
   \<and> handler fresh_pv = Some (Handler 7) \<and> channels fresh_pv = []
   \<and> map snd (sys_log (run [0, 1, 0, 0, 1, 0, 0, 0, 1, 1, 1, 1, 1]
        (start fresh_pv [spawn Ctor_lock 1, spawn Ctor_lock 2]))) = [Ev_onFirstConnect (Handler 7)]
   \<and> step 0 (run [0, 1, 0, 0, 1] (start fresh_pv [spawn Ctor_lock 1, spawn Ctor_lock 2]))
       = Some (run [0, 1, 0, 0, 1, 0] (start fresh_pv [spawn Ctor_lock 1, spawn Ctor_lock 2]))
   \<and> channels (sys_owner (run [0, 1, 0, 0, 1, 0]
        (start fresh_pv [spawn Ctor_lock 1, spawn Ctor_lock 2]))) = [1]
   \<and> (\<exists>d. sys_mutex (run [0, 1, 0, 0, 1] (start fresh_pv [spawn Ctor_lock 1, spawn Ctor_lock 2]))
          = Some (0, d))"
proof -
  let ?ths = "[spawn Ctor_lock 1, spawn Ctor_lock 2]"
  let ?sch = "[0, 1, 0, 0, 1, 0, 0, 0, 1, 1, 1, 1, 1]"
  have ret: "all_returned (run ?sch (start fresh_pv ?ths))"
    by (simp add: all_returned_def start_def spawn_def fresh_pv_def step_def goto_def
        set_channels_def)
  have hd: "handler fresh_pv = Some (Handler 7)" and em: "channels fresh_pv = []"
    by (simp_all add: fresh_pv_def)
  have init: "list_all (\<lambda>th. pc th = Ctor_lock \<and> captured th = None) ?ths"
    and unheld: "list_all (\<lambda>th. held (pc th) = 0) ?ths" and ne: "?ths \<noteq> []"
    by (simp_all add: spawn_def)
  have st: "step 0 (run [0, 1, 0, 0, 1] (start fresh_pv ?ths))
       = Some (run [0, 1, 0, 0, 1, 0] (start fresh_pv ?ths))"
    by (simp add: start_def spawn_def fresh_pv_def step_def goto_def set_channels_def)
  have ch: "channels (sys_owner (run [0, 1, 0, 0, 1, 0] (start fresh_pv ?ths))) = [1]"
    "channels (sys_owner (run [0, 1, 0, 0, 1] (start fresh_pv ?ths))) = []"
    by (simp_all add: start_def spawn_def fresh_pv_def step_def goto_def set_channels_def)
  note inst = first_connect_once [where pv = fresh_pv and ths = ?ths and h = "Handler 7"
      and sch = ?sch and pre = "[0, 1, 0, 0, 1]" and t = 0
      and s = "run [0, 1, 0, 0, 1] (start fresh_pv ?ths)"
      and s' = "run [0, 1, 0, 0, 1, 0] (start fresh_pv ?ths)"]
  from inst ret hd em init ne
  have once: "map snd (sys_log (run ?sch (start fresh_pv ?ths))) = [Ev_onFirstConnect (Handler 7)]"
    by blast
  from inst unheld st ch
  have held: "\<exists>d. sys_mutex (run [0, 1, 0, 0, 1] (start fresh_pv ?ths)) = Some (0, d)"
    by simp
  from ret hd em once st ch(1) held show ?thesis by blast
qed

text \<open>
  Claim C3 as stated fails on a record without a lifecycle handler: destroying its only
  channel empties the list, yet no last-detach notification is made, by the destructor
  run alone or as a thread.
\<close>

theorem dtor_without_handler_is_silent:
  "channels (fst (SharedChannel_dtor example_channel
      (fresh_pv\<lparr>handler := None, channels := [1]\<rparr>))) = []
   \<and> snd (SharedChannel_dtor example_channel (fresh_pv\<lparr>handler := None, channels := [1]\<rparr>))
       = [Ev_lock, Ev_lock, Ev_unlock, Ev_unlock]
   \<and> all_returned (run [0, 0, 0, 0, 0, 0, 0, 0]
        (start (fresh_pv\<lparr>handler := None, channels := [1]\<rparr>) [spawn Dtor_lock 1]))
   \<and> sys_log (run [0, 0, 0, 0, 0, 0, 0, 0]
        (start (fresh_pv\<lparr>handler := None, channels := [1]\<rparr>) [spawn Dtor_lock 1])) = []"
  by (simp add: SharedChannel_dtor_def example_channel_def all_returned_def start_def spawn_def
      fresh_pv_def step_def goto_def set_channels_def)

text \<open>
  Claim C3, amended.  The destructor removes the channel from the record's list and
  makes the handler's \<^verbatim>\<open>onLastDisconnect\<close> call, once, after the outer lock is released,
  if and only if the list is empty after the removal and the record has a handler.  In
  every state that threads constructing and destroying channels can reach: while a
  thread is inside a guarded block, a step of any other thread changes neither the
  record nor that thread; the threads can always run on until all have returned (the
  inner guard of the destructor takes a mutex its thread already holds, which the
  recursive mutex grants); and once a destroying thread holds the lock and is about to
  remove its channel, the calls it will have made when it returns are decided by the
  record as it is at that moment (one \<^verbatim>\<open>onLastDisconnect\<close> if the removal empties the
  list and there is a handler, none otherwise), whatever the other threads do and
  however the scheduler interleaves them.
\<close>

theorem last_disconnect_once:
  "channels (fst (SharedChannel_dtor chan owner)) = removeAll (chan_this chan) (channels owner)
   \<and> snd (SharedChannel_dtor chan owner)
       = [Ev_lock]
         @ (if removeAll (chan_this chan) (channels owner) = [] then [Ev_lock, Ev_unlock] else [])
         @ [Ev_unlock]
         @ (if removeAll (chan_this chan) (channels owner) = []
            then (case handler owner of Some h' \<Rightarrow> [Ev_onLastDisconnect h'] | None \<Rightarrow> [])
            else [])
         @ (if debugLvl owner > 5
            then [Ev_errlogPrintf
                    (case chan_requester chan of
                       Some r \<Rightarrow> getRequesterName r | None \<Rightarrow> ''<Defunct>'')
                    (channelName chan) (chan_this chan)]
            else [])
   \<and> (list_all (\<lambda>th. held (pc th) = 0) ths \<longrightarrow> s = run pre (start pv ths) \<longrightarrow>
        t < length (sys_threads s) \<longrightarrow>
          (0 < held (pc (sys_threads s ! t)) \<longrightarrow> u \<noteq> t \<longrightarrow> step u s = Some s' \<longrightarrow>
             sys_owner s' = sys_owner s \<and> sys_threads s' ! t = sys_threads s ! t)
        \<and> (\<exists>more. all_returned (run more s))
        \<and> (pc (sys_threads s ! t) = Dtor_remove \<longrightarrow> captured (sys_threads s ! t) = None \<longrightarrow>
           pc (sys_threads (run sch s) ! t) = Returned \<longrightarrow>
             calls_of t (run sch s) =
               calls_of t s
               @ (if removeAll (self (sys_threads s ! t)) (channels (sys_owner s)) = []
                  then (case handler (sys_owner s) of
                          Some h \<Rightarrow> [Ev_onLastDisconnect h] | None \<Rightarrow> [])
                  else [])))"
proof -
  have seq: "channels (fst (SharedChannel_dtor chan owner)) = removeAll (chan_this chan) (channels owner)"
    "snd (SharedChannel_dtor chan owner)
       = [Ev_lock]
         @ (if removeAll (chan_this chan) (channels owner) = [] then [Ev_lock, Ev_unlock] else [])
         @ [Ev_unlock]
         @ (if removeAll (chan_this chan) (channels owner) = []
            then (case handler owner of Some h' \<Rightarrow> [Ev_onLastDisconnect h'] | None \<Rightarrow> [])
            else [])
         @ (if debugLvl owner > 5
            then [Ev_errlogPrintf
                    (case chan_requester chan of
                       Some r \<Rightarrow> getRequesterName r | None \<Rightarrow> ''<Defunct>'')
                    (channelName chan) (chan_this chan)]
            else [])"
    by (simp_all add: SharedChannel_dtor_def Let_def)
  have conc: "(0 < held (pc (sys_threads s ! t)) \<longrightarrow> u \<noteq> t \<longrightarrow> step u s = Some s' \<longrightarrow>
             sys_owner s' = sys_owner s \<and> sys_threads s' ! t = sys_threads s ! t)
        \<and> (\<exists>more. all_returned (run more s))
        \<and> (pc (sys_threads s ! t) = Dtor_remove \<longrightarrow> captured (sys_threads s ! t) = None \<longrightarrow>
           pc (sys_threads (run sch s) ! t) = Returned \<longrightarrow>
             calls_of t (run sch s) =
               calls_of t s
               @ (if removeAll (self (sys_threads s ! t)) (channels (sys_owner s)) = []
                  then (case handler (sys_owner s) of
                          Some h \<Rightarrow> [Ev_onLastDisconnect h] | None \<Rightarrow> [])
                  else []))"
    if "list_all (\<lambda>th. held (pc th) = 0) ths" and "s = run pre (start pv ths)"
      and t: "t < length (sys_threads s)"
  proof -
    from that(1,2) have ok: "mutex_ok s"
      by (simp add: mutex_ok_run mutex_ok_start)
    have frame: "sys_owner s' = sys_owner s \<and> sys_threads s' ! t = sys_threads s ! t"
      if "0 < held (pc (sys_threads s ! t))" and "u \<noteq> t" and "step u s = Some s'"
      using other_step_frame [OF ok t that] step_frame(2) [OF that(3), of t] that(2) by simp
    from frame can_finish [OF ok] dtor_outcome [OF ok t] show ?thesis by blast
  qed
  from seq conc show ?thesis by blast
qed

theorem last_disconnect_once_witness:
  "pc (sys_threads (run [0] (start (fresh_pv\<lparr>channels := [1]\<rparr>)
        [spawn Dtor_lock 1, spawn Ctor_lock 2])) ! 0) = Dtor_remove
   \<and> pc (sys_threads (run [1, 0, 0, 1, 0, 0, 0, 0, 0]
        (run [0] (start (fresh_pv\<lparr>channels := [1]\<rparr>)
           [spawn Dtor_lock 1, spawn Ctor_lock 2]))) ! 0) = Returned
   \<and> calls_of 0 (run [1, 0, 0, 1, 0, 0, 0, 0, 0]
        (run [0] (start (fresh_pv\<lparr>channels := [1]\<rparr>)
           [spawn Dtor_lock 1, spawn Ctor_lock 2])))
       = [Ev_onLastDisconnect (Handler 7)]
   \<and> 0 < held (pc (sys_threads (run [1, 1, 1, 1, 0] (start (fresh_pv\<lparr>channels := [1]\<rparr>)
        [spawn Dtor_lock 1, spawn Ctor_lock 2])) ! 0))
   \<and> step 1 (run [1, 1, 1, 1, 0] (start (fresh_pv\<lparr>channels := [1]\<rparr>)
        [spawn Dtor_lock 1, spawn Ctor_lock 2]))
       = Some (run [1, 1, 1, 1, 0, 1] (start (fresh_pv\<lparr>channels := [1]\<rparr>)
        [spawn Dtor_lock 1, spawn Ctor_lock 2]))
   \<and> channels (sys_owner (run [1, 1, 1, 1, 0, 1] (start (fresh_pv\<lparr>channels := [1]\<rparr>)
        [spawn Dtor_lock 1, spawn Ctor_lock 2]))) = [1, 2]"
proof -
  let ?pv = "fresh_pv\<lparr>channels := [1]\<rparr>"
  let ?ths = "[spawn Dtor_lock 1, spawn Ctor_lock 2]"
  let ?s = "run [0] (start ?pv ?ths)"
  let ?sch = "[1, 0, 0, 1, 0, 0, 0, 0, 0]"
  let ?a = "run [1, 1, 1, 1, 0] (start ?pv ?ths)"
  let ?a' = "run [1, 1, 1, 1, 0, 1] (start ?pv ?ths)"
  have unheld: "list_all (\<lambda>th. held (pc th) = 0) ?ths"
    by (simp add: spawn_def)
  have s: "0 < length (sys_threads ?s)" "pc (sys_threads ?s ! 0) = Dtor_remove"
      "captured (sys_threads ?s ! 0) = None" "self (sys_threads ?s ! 0) = 1"
      "channels (sys_owner ?s) = [1]" "handler (sys_owner ?s) = Some (Handler 7)"
      "calls_of 0 ?s = []"
    by (simp_all add: start_def spawn_def fresh_pv_def step_def goto_def set_channels_def
        calls_of_def)
  have fin: "pc (sys_threads (run ?sch ?s) ! 0) = Returned"
    by (simp add: start_def spawn_def fresh_pv_def step_def goto_def set_channels_def)
  have a: "0 < length (sys_threads ?a)" "0 < held (pc (sys_threads ?a ! 0))"
      "step 1 ?a = Some ?a'" "channels (sys_owner ?a) = [1, 2]"
    by (simp_all add: start_def spawn_def fresh_pv_def step_def goto_def set_channels_def)
  note outcome = last_disconnect_once [where ths = ?ths and pv = ?pv and pre = "[0]" and s = ?s
      and t = 0 and sch = ?sch]
  note frame = last_disconnect_once [where ths = ?ths and pv = ?pv and pre = "[1, 1, 1, 1, 0]"
      and s = ?a and t = 0 and u = 1 and s' = ?a']
  from outcome unheld s(1,2,3) fin
  have "calls_of 0 (run ?sch ?s) =
      calls_of 0 ?s
      @ (if removeAll (self (sys_threads ?s ! 0)) (channels (sys_owner ?s)) = []
         then (case handler (sys_owner ?s) of Some h \<Rightarrow> [Ev_onLastDisconnect h] | None \<Rightarrow> [])
         else [])"
    by blast
  with s(4,5,6,7) have calls: "calls_of 0 (run ?sch ?s) = [Ev_onLastDisconnect (Handler 7)]"
    by simp
  from frame unheld a(1,2,3) have "sys_owner ?a' = sys_owner ?a"
    by simp
  with a(4) have same: "channels (sys_owner ?a') = [1, 2]" by simp
  from s(2) fin calls a(2,3) same show ?thesis by blast
qed

end
